theory Spec2Isabelle
  imports Main "HOL-Library.Word"
begin

unbundle bit_operations_syntax

section \<open>Data model of fs/aio.c\<close>

text \<open>
  C's \<open>unsigned\<close> and \<open>atomic_t\<close> are 32-bit words (arithmetic wraps, comparisons
  between an \<open>int\<close> and an \<open>unsigned\<close> are unsigned), \<open>unsigned long\<close> and the
  64-bit fields of the user ABI are 64-bit words. Values of type \<open>long\<close> that carry
  a count or a negative errno (\<open>ret\<close>, \<open>nr\<close>, \<open>res\<close>) are integers.
\<close>

type_synonym u32 = "32 word"

type_synonym u64 = "64 word"

text \<open>The errno values the functions below return, negated, as the kernel defines them.\<close>

definition EINTR :: int where "EINTR = 4"

definition EBADF :: int where "EBADF = 9"

definition EAGAIN :: int where "EAGAIN = 11"

definition ENOMEM :: int where "ENOMEM = 12"

definition EFAULT :: int where "EFAULT = 14"

definition EINVAL :: int where "EINVAL = 22"

definition ERESTARTSYS :: int where "ERESTARTSYS = 512"

definition ERESTARTNOINTR :: int where "ERESTARTNOINTR = 513"

definition ERESTARTNOHAND :: int where "ERESTARTNOHAND = 514"

definition ERESTART_RESTARTBLOCK :: int where "ERESTART_RESTARTBLOCK = 516"

definition EIOCBQUEUED :: int where "EIOCBQUEUED = 529"

definition MAX_ERRNO :: int where "MAX_ERRNO = 4095"

text \<open>\<open>struct io_event\<close>: four 64-bit fields, 32 bytes.\<close>

record io_event =
  obj :: u64
  data :: u64
  res :: int
  res2 :: int

text \<open>
  \<open>struct kioctx\<close> together with the header of the ring it owns. \<open>cpu\<close> is the
  per-CPU array of \<open>struct kioctx_cpu\<close> (one \<open>reqs_available\<close> per possible CPU),
  \<open>reqs_available\<close> the global atomic. \<open>ring_head\<close> and \<open>ring_tail\<close> are the
  \<open>head\<close> and \<open>tail\<close> fields of \<open>struct aio_ring\<close> in page 0, which userspace can
  write; \<open>ring_slots\<close> is the content of the ring pages in units of one
  \<open>io_event\<close>, addressed by \<open>page * AIO_EVENTS_PER_PAGE + slot\<close>. \<open>users\<close> and
  \<open>reqs\<close> count the references of the two \<open>percpu_ref\<close>s.
\<close>

record kioctx =
  users :: int
  dead :: u32
  reqs :: int
  user_id :: u64
  cpu :: "u32 list"
  req_batch :: u32
  max_reqs :: u32
  nr_events :: u32
  mmap_base :: u64
  mmap_size :: u64
  nr_pages :: int
  reqs_available :: u32
  tail :: u32
  completed_events :: u32
  ring_id :: u32
  ring_nr :: u32
  ring_head :: u32
  ring_tail :: u32
  ring_slots :: "nat \<Rightarrow> io_event"
  id :: u32

section \<open>Admission counter\<close>

text \<open>
  The loop of \<open>put_reqs_available\<close> on the local counter \<open>l\<close> of the current CPU
  and the global atomic \<open>g\<close>:
  \<^verbatim>\<open>while (kcpu->reqs_available >= ctx->req_batch * 2) {
        kcpu->reqs_available -= ctx->req_batch;
        atomic_add(ctx->req_batch, &ctx->reqs_available); }\<close>
  With \<open>req_batch * 2 = 0\<close> in 32 bits the condition is always true and the loop does
  not end, so the loop is a partial function and \<open>None\<close> is "does not return".
\<close>

partial_function (option) put_loop :: "u32 \<Rightarrow> u32 \<Rightarrow> u32 \<Rightarrow> (u32 \<times> u32) option" where
  "put_loop batch l g =
     (if batch * 2 \<le> l then put_loop batch (l - batch) (g + batch) else Some (l, g))"

text \<open>\<open>put_reqs_available(ctx, nr)\<close> running on CPU \<open>c\<close>.\<close>

definition put_reqs_available :: "kioctx \<Rightarrow> nat \<Rightarrow> u32 \<Rightarrow> kioctx option" where
  "put_reqs_available ctx c nr =
     (case put_loop (req_batch ctx) (cpu ctx ! c + nr) (reqs_available ctx) of
        None \<Rightarrow> None
      | Some (l, g) \<Rightarrow> Some (ctx\<lparr>cpu := (cpu ctx)[c := l], reqs_available := g\<rparr>))"

text \<open>
  \<open>atomic_cmpxchg(v, old, new)\<close> on a location holding \<open>cur\<close>: the new content of
  the location and the value returned.
\<close>

definition atomic_cmpxchg :: "'a \<Rightarrow> 'a \<Rightarrow> 'a \<Rightarrow> 'a \<times> 'a" where
  "atomic_cmpxchg cur old new = (if cur = old then new else cur, cur)"

text \<open>
  The compare-and-swap loop of \<open>get_reqs_available\<close>:
  \<^verbatim>\<open>do { if (avail < ctx->req_batch) goto out;
       old = avail;
       avail = atomic_cmpxchg(&ctx->reqs_available, avail, avail - ctx->req_batch);
  } while (avail != old);\<close>
  \<open>avail\<close> is the value last read from the global atomic. Other CPUs can change
  the atomic between that read and the \<open>cmpxchg\<close>: the list \<open>vs\<close> gives, for each
  disturbed attempt in turn, the content the \<open>cmpxchg\<close> finds; once the list is
  used up the atomic still holds the value last read. The result is whether the
  batch was taken, and the content of the atomic after the loop.
\<close>

fun get_loop :: "u32 \<Rightarrow> u32 \<Rightarrow> u32 list \<Rightarrow> bool \<times> u32" where
  "get_loop batch avail [] =
     (if avail < batch then (False, avail)
      else (True, fst (atomic_cmpxchg avail avail (avail - batch))))"
| "get_loop batch avail (v # vs) =
     (if avail < batch then (False, avail)
      else (case atomic_cmpxchg v avail (avail - batch) of
              (g, r) \<Rightarrow> if r \<noteq> avail then get_loop batch r vs else (True, g)))"

text \<open>\<open>get_reqs_available(ctx)\<close> on CPU \<open>c\<close>, with the interference \<open>vs\<close> on the global atomic.\<close>

definition get_reqs_available :: "kioctx \<Rightarrow> nat \<Rightarrow> u32 list \<Rightarrow> kioctx \<times> bool" where
  "get_reqs_available ctx c vs =
     (if cpu ctx ! c = 0 then
        (case get_loop (req_batch ctx) (reqs_available ctx) vs of
           (False, g) \<Rightarrow> (ctx\<lparr>reqs_available := g\<rparr>, False)
         | (True, g) \<Rightarrow>
             (ctx\<lparr>reqs_available := g,
                  cpu := (cpu ctx)[c := cpu ctx ! c + req_batch ctx - 1]\<rparr>, True))
      else (ctx\<lparr>cpu := (cpu ctx)[c := cpu ctx ! c - 1]\<rparr>, True))"

text \<open>
  The admission counter as a whole: the global atomic plus the local counters of all
  CPUs (32-bit arithmetic).
\<close>

definition slots_available :: "kioctx \<Rightarrow> u32" where
  "slots_available ctx = reqs_available ctx + sum_list (cpu ctx)"

text \<open>
  The number of batches the loop of \<open>put_reqs_available\<close> moves out of a local
  counter holding \<open>l\<close>: none below \<open>2 * batch\<close>, otherwise as many as leave at
  least one batch and less than two behind.
\<close>

definition flushed_batches :: "u32 \<Rightarrow> u32 \<Rightarrow> nat" where
  "flushed_batches batch l = (if unat l < 2 * unat batch then 0 else unat l div unat batch - 1)"

text \<open>
  A context as \<open>io_setup(1)\<close> leaves it on a machine with one possible CPU and
  4096-byte pages: \<open>max_reqs = 8\<close>, one ring page with room for 127 events,
  \<open>req_batch = 126 / 4 = 31\<close>.
\<close>

definition ctx_small :: kioctx where
  "ctx_small = \<lparr>users = 1, dead = 0, reqs = 2, user_id = 0x7f0000000000, cpu = [0],
     req_batch = 31, max_reqs = 8, nr_events = 127, mmap_base = 0x7f0000000000,
     mmap_size = 4096, nr_pages = 1, reqs_available = 126, tail = 0,
     completed_events = 0, ring_id = 0, ring_nr = 127, ring_head = 0, ring_tail = 0,
     ring_slots = (\<lambda>_. \<lparr>obj = 0, data = 0, res = 0, res2 = 0\<rparr>), id = 0\<rparr>"

section \<open>Completion ring\<close>

text \<open>
  \<open>sizeof(struct aio_ring)\<close> (eight \<open>unsigned\<close> fields) and
  \<open>sizeof(struct io_event)\<close>. \<open>PAGE_SIZE\<close> is a constant of the architecture and
  is a parameter \<open>ps\<close> of every function that uses it.
\<close>

definition sizeof_aio_ring :: nat where "sizeof_aio_ring = 32"

definition sizeof_io_event :: nat where "sizeof_io_event = 32"

definition AIO_EVENTS_PER_PAGE :: "nat \<Rightarrow> nat" where
  "AIO_EVENTS_PER_PAGE ps = ps div sizeof_io_event"

definition AIO_EVENTS_FIRST_PAGE :: "nat \<Rightarrow> nat" where
  "AIO_EVENTS_FIRST_PAGE ps = (ps - sizeof_aio_ring) div sizeof_io_event"

definition AIO_EVENTS_OFFSET :: "nat \<Rightarrow> nat" where
  "AIO_EVENTS_OFFSET ps = AIO_EVENTS_PER_PAGE ps - AIO_EVENTS_FIRST_PAGE ps"

text \<open>
  \<open>refill_reqs_available(ctx, head, tail)\<close> on CPU \<open>c\<close>. \<open>head\<close> comes from the
  ring header and is any 32-bit value.
\<close>

definition refill_reqs_available :: "kioctx \<Rightarrow> nat \<Rightarrow> u32 \<Rightarrow> u32 \<Rightarrow> kioctx option" where
  "refill_reqs_available ctx c head tail' =
     (let head = head mod nr_events ctx;
          events_in_ring = (if head \<le> tail' then tail' - head else nr_events ctx - (head - tail'));
          completed = completed_events ctx;
          completed = (if events_in_ring < completed then completed - events_in_ring else 0)
      in if completed = 0 then Some ctx
         else put_reqs_available
                (ctx\<lparr>completed_events := completed_events ctx - completed\<rparr>) c completed)"

definition user_refill_reqs_available :: "kioctx \<Rightarrow> nat \<Rightarrow> kioctx option" where
  "user_refill_reqs_available ctx c =
     (if completed_events ctx \<noteq> 0 then refill_reqs_available ctx c (ring_head ctx) (tail ctx)
      else Some ctx)"

section \<open>Request objects\<close>

text \<open>
  The value of \<open>ki_cancel\<close>: \<open>NULL\<close>, a cancel function (named by a number), or
  \<open>KIOCB_CANCELLED\<close>.
\<close>

datatype cancel_val = CancelNull | CancelFn nat | KIOCB_CANCELLED

text \<open>
  \<open>struct aio_kiocb\<close>, the fields the functions below read or write. Pointers
  (\<open>ki_filp\<close>, \<open>ki_eventfd\<close>, \<open>ki_user_iocb\<close>) are 64-bit words with 0 for \<open>NULL\<close>;
  \<open>ki_linked\<close> is \<open>ki_list.next != NULL\<close>.
\<close>

record aio_kiocb =
  ki_filp :: u64
  ki_pos :: u64
  ki_cancel :: cancel_val
  ki_user_iocb :: u64
  ki_user_data :: u64
  ki_linked :: bool
  ki_eventfd :: u64

definition zeroed_kiocb :: aio_kiocb where
  "zeroed_kiocb = \<lparr>ki_filp = 0, ki_pos = 0, ki_cancel = CancelNull, ki_user_iocb = 0,
     ki_user_data = 0, ki_linked = False, ki_eventfd = 0\<rparr>"

text \<open>
  \<open>aio_get_req(ctx)\<close> on CPU \<open>c\<close>; \<open>alloc_ok\<close> says whether \<open>kmem_cache_alloc\<close>
  returns an object. The two calls of \<open>get_reqs_available\<close> run without
  interference from other CPUs. The result is the context and the request, or
  \<open>None\<close> for \<open>NULL\<close>.
\<close>

definition aio_get_req_alloc :: "kioctx \<Rightarrow> nat \<Rightarrow> bool \<Rightarrow> (kioctx \<times> aio_kiocb option) option" where
  "aio_get_req_alloc ctx c alloc_ok =
     (if \<not> alloc_ok then
        (case put_reqs_available ctx c 1 of
           None \<Rightarrow> None
         | Some ctx' \<Rightarrow> Some (ctx', None))
      else Some (ctx\<lparr>reqs := reqs ctx + 1\<rparr>, Some zeroed_kiocb))"

definition aio_get_req :: "kioctx \<Rightarrow> nat \<Rightarrow> bool \<Rightarrow> (kioctx \<times> aio_kiocb option) option" where
  "aio_get_req ctx c alloc_ok =
     (case get_reqs_available ctx c [] of
        (ctx1, True) \<Rightarrow> aio_get_req_alloc ctx1 c alloc_ok
      | (ctx1, False) \<Rightarrow>
          (case user_refill_reqs_available ctx1 c of
             None \<Rightarrow> None
           | Some ctx2 \<Rightarrow>
               (case get_reqs_available ctx2 c [] of
                  (ctx3, False) \<Rightarrow> Some (ctx3, None)
                | (ctx3, True) \<Rightarrow> aio_get_req_alloc ctx3 c alloc_ok)))"

text \<open>
  What a function does besides changing the context, in the order of the source:
  lock operations, stores to the ring, and calls to collaborators.
\<close>

datatype effect =
    Lock_ctx_lock | Unlock_ctx_lock | List_del
  | Lock_completion_lock | Unlock_completion_lock
  | Store_event nat io_event | Store_ctx_tail u32 | Store_ring_tail u32
  | Inc_completed_events | Call_refill u32 u32
  | Eventfd_signal u64 | Kiocb_free | Wake_up | Ref_put_reqs
  | Lock_ioctx_lock | Unlock_ioctx_lock | Xchg_dead u32 | Table_clear nat
  | Wake_up_all | Aio_nr_sub u32 | Vm_munmap u64 u64 | Ref_kill_users

text \<open>
  \<open>aio_complete(kiocb, res, res2)\<close> for a request of context \<open>ctx\<close>, on CPU \<open>c\<close>;
  \<open>waiters\<close> is \<open>waitqueue_active(&ctx->wait)\<close>. The event is stored at
  \<open>ring_pages[pos / AIO_EVENTS_PER_PAGE]\<close>, slot \<open>pos % AIO_EVENTS_PER_PAGE\<close>.
\<close>

definition aio_complete ::
    "nat \<Rightarrow> kioctx \<Rightarrow> nat \<Rightarrow> bool \<Rightarrow> aio_kiocb \<Rightarrow> int \<Rightarrow> int \<Rightarrow> (kioctx \<times> effect list) option" where
  "aio_complete ps ctx c waiters iocb rs rs2 =
     (let e1 = (if ki_linked iocb then [Lock_ctx_lock, List_del, Unlock_ctx_lock] else []);
          tail' = tail ctx;
          pos = tail' + of_nat (AIO_EVENTS_OFFSET ps);
          tail' = (if nr_events ctx \<le> tail' + 1 then 0 else tail' + 1);
          slot = (unat pos div AIO_EVENTS_PER_PAGE ps) * AIO_EVENTS_PER_PAGE ps
                   + unat pos mod AIO_EVENTS_PER_PAGE ps;
          event = \<lparr>obj = ki_user_iocb iocb, data = ki_user_data iocb, res = rs, res2 = rs2\<rparr>;
          ctx1 = ctx\<lparr>ring_slots := (ring_slots ctx)(slot := event)\<rparr>;
          ctx2 = ctx1\<lparr>tail := tail'\<rparr>;
          head = ring_head ctx2;
          ctx3 = ctx2\<lparr>ring_tail := tail'\<rparr>;
          ctx4 = ctx3\<lparr>completed_events := completed_events ctx3 + 1\<rparr>;
          e2 = [Lock_completion_lock, Store_event slot event, Store_ctx_tail tail',
                Store_ring_tail tail', Inc_completed_events];
          e3 = [Unlock_completion_lock]
                 @ (if ki_eventfd iocb \<noteq> 0 then [Eventfd_signal (ki_eventfd iocb)] else [])
                 @ [Kiocb_free] @ (if waiters then [Wake_up] else []) @ [Ref_put_reqs]
      in if 1 < completed_events ctx4 then
           (case refill_reqs_available ctx4 c head tail' of
              None \<Rightarrow> None
            | Some ctx5 \<Rightarrow>
                Some (ctx5\<lparr>reqs := reqs ctx5 - 1\<rparr>, e1 @ e2 @ [Call_refill head tail'] @ e3))
         else Some (ctx4\<lparr>reqs := reqs ctx4 - 1\<rparr>, e1 @ e2 @ e3))"

text \<open>
  The loop of \<open>aio_read_events_ring\<close>, with \<open>head\<close> and \<open>tail\<close> already reduced
  modulo \<open>nr_events\<close>. \<open>copy_fails ret avail\<close> says whether \<open>copy_to_user\<close> of
  \<open>avail\<close> events to \<open>event + ret\<close> fails. \<open>rd\<close> collects the slots of the ring
  pages that are read, \<open>page * AIO_EVENTS_PER_PAGE + pos\<close> and the \<open>avail - 1\<close>
  following. The result is \<open>None\<close> if the loop does not end; otherwise whether the
  function left by \<open>goto out\<close> after a failed copy, the final \<open>head\<close> and \<open>ret\<close>, and
  the slots read.
\<close>

partial_function (option) read_events_loop ::
    "nat \<Rightarrow> kioctx \<Rightarrow> (int \<Rightarrow> int \<Rightarrow> bool) \<Rightarrow> int \<Rightarrow> u32 \<Rightarrow> u32 \<Rightarrow> int \<Rightarrow> nat list
       \<Rightarrow> (bool \<times> u32 \<times> int \<times> nat list) option" where
  "read_events_loop ps ctx copy_fails nr head tail' ret rd =
     (if ret < nr then
        (let avail = int (unat ((if head \<le> tail' then tail' else nr_events ctx) - head)) in
         if head = tail' then Some (False, head, ret, rd)
         else
           (let avail = min avail (nr - ret);
                avail = min avail (int (AIO_EVENTS_PER_PAGE ps
                          - (unat head + AIO_EVENTS_OFFSET ps) mod AIO_EVENTS_PER_PAGE ps));
                pos = head + of_nat (AIO_EVENTS_OFFSET ps);
                page = unat pos div AIO_EVENTS_PER_PAGE ps;
                pos = unat pos mod AIO_EVENTS_PER_PAGE ps;
                first = page * AIO_EVENTS_PER_PAGE ps + pos
            in if copy_fails ret avail then Some (True, head, - EFAULT, rd)
               else read_events_loop ps ctx copy_fails nr
                      ((head + word_of_int avail) mod nr_events ctx) tail' (ret + avail)
                      (rd @ [first ..< first + nat avail])))
      else Some (False, head, ret, rd))"

text \<open>
  \<open>aio_read_events_ring(ctx, event, nr)\<close>: the context, the value returned and the
  slots of the ring pages copied to userspace, in order.
\<close>

definition aio_read_events_ring ::
    "nat \<Rightarrow> kioctx \<Rightarrow> (int \<Rightarrow> int \<Rightarrow> bool) \<Rightarrow> int \<Rightarrow> (kioctx \<times> int \<times> nat list) option" where
  "aio_read_events_ring ps ctx copy_fails nr =
     (let head = ring_head ctx; tail' = ring_tail ctx in
      if head = tail' then Some (ctx, 0, [])
      else
        (case read_events_loop ps ctx copy_fails nr
                (head mod nr_events ctx) (tail' mod nr_events ctx) 0 [] of
           None \<Rightarrow> None
         | Some (faulted, head, ret, rd) \<Rightarrow>
             if faulted then Some (ctx, ret, rd)
             else Some (ctx\<lparr>ring_head := head\<rparr>, ret, rd)))"

section \<open>Definitions for the lemmas on the completion ring\<close>

text \<open>The number of slots \<open>refill_reqs_available\<close> hands back.\<close>

definition refill_count :: "kioctx \<Rightarrow> u32 \<Rightarrow> u32 \<Rightarrow> u32" where
  "refill_count ctx head tail' =
     (let head = head mod nr_events ctx;
          events_in_ring = (if head \<le> tail' then tail' - head else nr_events ctx - (head - tail'))
      in if events_in_ring < completed_events ctx then completed_events ctx - events_in_ring else 0)"

text \<open>
  The context after the stores \<open>aio_complete\<close> makes under the completion lock,
  before the refill, and the effects of the whole call; both only name parts of
  \<open>aio_complete\<close> for the proofs below.
\<close>

definition published :: "nat \<Rightarrow> kioctx \<Rightarrow> aio_kiocb \<Rightarrow> int \<Rightarrow> int \<Rightarrow> kioctx" where
  "published ps ctx iocb rs rs2 =
     ctx\<lparr>ring_slots := (ring_slots ctx)
            (unat (tail ctx + of_nat (AIO_EVENTS_OFFSET ps)) :=
               \<lparr>obj = ki_user_iocb iocb, data = ki_user_data iocb, res = rs, res2 = rs2\<rparr>),
         tail := (if nr_events ctx \<le> tail ctx + 1 then 0 else tail ctx + 1),
         ring_tail := (if nr_events ctx \<le> tail ctx + 1 then 0 else tail ctx + 1),
         completed_events := completed_events ctx + 1\<rparr>"

definition complete_effects :: "nat \<Rightarrow> kioctx \<Rightarrow> bool \<Rightarrow> aio_kiocb \<Rightarrow> int \<Rightarrow> int \<Rightarrow> effect list" where
  "complete_effects ps ctx waiters iocb rs rs2 =
     (if ki_linked iocb then [Lock_ctx_lock, List_del, Unlock_ctx_lock] else [])
     @ [Lock_completion_lock,
        Store_event (unat (tail ctx + of_nat (AIO_EVENTS_OFFSET ps)))
          \<lparr>obj = ki_user_iocb iocb, data = ki_user_data iocb, res = rs, res2 = rs2\<rparr>,
        Store_ctx_tail (if nr_events ctx \<le> tail ctx + 1 then 0 else tail ctx + 1),
        Store_ring_tail (if nr_events ctx \<le> tail ctx + 1 then 0 else tail ctx + 1),
        Inc_completed_events]
     @ (if 1 < completed_events ctx + 1
        then [Call_refill (ring_head ctx) (if nr_events ctx \<le> tail ctx + 1 then 0 else tail ctx + 1)]
        else [])
     @ [Unlock_completion_lock]
     @ (if ki_eventfd iocb \<noteq> 0 then [Eventfd_signal (ki_eventfd iocb)] else [])
     @ [Kiocb_free] @ (if waiters then [Wake_up] else []) @ [Ref_put_reqs]"

section \<open>Cancellation\<close>

text \<open>
  The loop of \<open>kiocb_cancel\<close>:
  \<^verbatim>\<open>cancel = ACCESS_ONCE(kiocb->ki_cancel);
  do { if (!cancel || cancel == KIOCB_CANCELLED) return -EINVAL;
       old = cancel;
       cancel = cmpxchg(&kiocb->ki_cancel, old, KIOCB_CANCELLED);
  } while (cancel != old);\<close>
  The first argument is \<open>cancel\<close>, the value last read; as in \<open>get_loop\<close>, \<open>vs\<close>
  lists what the disturbed \<open>cmpxchg\<close> attempts find in \<open>ki_cancel\<close>. The result
  is the content of \<open>ki_cancel\<close> after the loop and the function to call, if any.
\<close>

fun kiocb_cancel_loop :: "cancel_val \<Rightarrow> cancel_val list \<Rightarrow> cancel_val \<times> nat option" where
  "kiocb_cancel_loop CancelNull vs = (CancelNull, None)"
| "kiocb_cancel_loop KIOCB_CANCELLED vs = (KIOCB_CANCELLED, None)"
| "kiocb_cancel_loop (CancelFn f) [] =
     (fst (atomic_cmpxchg (CancelFn f) (CancelFn f) KIOCB_CANCELLED), Some f)"
| "kiocb_cancel_loop (CancelFn f) (v # vs) =
     (case atomic_cmpxchg v (CancelFn f) KIOCB_CANCELLED of
        (m, r) \<Rightarrow> if r \<noteq> CancelFn f then kiocb_cancel_loop r vs else (m, Some f))"

text \<open>
  \<open>kiocb_cancel(kiocb)\<close>. \<open>run f\<close> is the value the cancel function \<open>f\<close> returns.
  The result is the request, the value returned, and the cancel functions invoked.
\<close>

definition kiocb_cancel ::
    "(nat \<Rightarrow> int) \<Rightarrow> aio_kiocb \<Rightarrow> cancel_val list \<Rightarrow> aio_kiocb \<times> int \<times> nat list" where
  "kiocb_cancel run kiocb vs =
     (case kiocb_cancel_loop (ki_cancel kiocb) vs of
        (m, None) \<Rightarrow> (kiocb\<lparr>ki_cancel := m\<rparr>, - EINVAL, [])
      | (m, Some f) \<Rightarrow> (kiocb\<lparr>ki_cancel := m\<rparr>, run f, [f]))"

text \<open>
  \<open>n\<close> calls of \<open>kiocb_cancel\<close> on the same request, one after the other (as
  \<open>io_cancel\<close> called repeatedly, or \<open>io_cancel\<close> and then \<open>free_ioctx_users\<close>):
  the values returned and all cancel functions invoked.
\<close>

fun kiocb_cancel_repeat ::
    "(nat \<Rightarrow> int) \<Rightarrow> aio_kiocb \<Rightarrow> nat \<Rightarrow> aio_kiocb \<times> int list \<times> nat list" where
  "kiocb_cancel_repeat run kiocb 0 = (kiocb, [], [])"
| "kiocb_cancel_repeat run kiocb (Suc n) =
     (case kiocb_cancel run kiocb [] of
        (kiocb1, ret, calls) \<Rightarrow>
          (case kiocb_cancel_repeat run kiocb1 n of
             (kiocb2, rets, calls2) \<Rightarrow> (kiocb2, ret # rets, calls @ calls2)))"

text \<open>
  Concurrent calls of \<open>kiocb_cancel\<close> on one request. A caller is before the
  \<open>ACCESS_ONCE\<close>, at the head of the loop with the value read, after a successful
  \<open>cmpxchg\<close> and about to call the function, or has returned. A state is the
  content of \<open>ki_cancel\<close>, the cancel functions invoked so far, the callers, and
  the number of stores so far that overwrote \<open>KIOCB_CANCELLED\<close>. Each step is one
  atomic action of one caller, or of one of the two other writers of \<open>ki_cancel\<close>:
  \<open>store\<close> is the assignment \<open>req->ki_cancel = cancel\<close> of \<open>kiocb_set_cancel_fn\<close>,
  done whatever the field holds, and \<open>requeue\<close> is the \<open>cmpxchg\<close> of
  \<open>aio_thread_fn\<close> from the early to the late cancel function.
\<close>

datatype cancel_pc = At_read | At_check cancel_val | At_call nat | Returned int

inductive cancel_step ::
    "(nat \<Rightarrow> int) \<Rightarrow> cancel_val \<times> nat list \<times> cancel_pc list \<times> nat
       \<Rightarrow> cancel_val \<times> nat list \<times> cancel_pc list \<times> nat \<Rightarrow> bool"
  for run :: "nat \<Rightarrow> int" where
  read: "i < length ts \<Longrightarrow> ts ! i = At_read \<Longrightarrow>
           cancel_step run (m, calls, ts, w) (m, calls, ts[i := At_check m], w)"
| reject: "i < length ts \<Longrightarrow> ts ! i = At_check c \<Longrightarrow> c = CancelNull \<or> c = KIOCB_CANCELLED \<Longrightarrow>
           cancel_step run (m, calls, ts, w) (m, calls, ts[i := Returned (- EINVAL)], w)"
| swap: "i < length ts \<Longrightarrow> ts ! i = At_check (CancelFn f) \<Longrightarrow>
           atomic_cmpxchg m (CancelFn f) KIOCB_CANCELLED = (m', r) \<Longrightarrow>
           cancel_step run (m, calls, ts, w)
             (m', calls, ts[i := (if r \<noteq> CancelFn f then At_check r else At_call f)], w)"
| call: "i < length ts \<Longrightarrow> ts ! i = At_call f \<Longrightarrow>
           cancel_step run (m, calls, ts, w) (m, calls @ [f], ts[i := Returned (run f)], w)"
| store: "cancel_step run (m, calls, ts, w)
             (v, calls, ts, if m = KIOCB_CANCELLED then Suc w else w)"
| requeue: "atomic_cmpxchg m (CancelFn early) (CancelFn late) = (m', r) \<Longrightarrow>
           cancel_step run (m, calls, ts, w) (m', calls, ts, w)"

inductive cancel_reach ::
    "(nat \<Rightarrow> int) \<Rightarrow> cancel_val \<Rightarrow> nat
       \<Rightarrow> cancel_val \<times> nat list \<times> cancel_pc list \<times> nat \<Rightarrow> bool"
  for run :: "nat \<Rightarrow> int" and m0 :: cancel_val and n :: nat where
  init: "cancel_reach run m0 n (m0, [], replicate n At_read, 0)"
| step: "cancel_reach run m0 n s \<Longrightarrow> cancel_step run s s' \<Longrightarrow> cancel_reach run m0 n s'"

text \<open>The number of callers that have won the \<open>cmpxchg\<close> and not yet called the function.\<close>

definition calling :: "cancel_pc list \<Rightarrow> nat" where
  "calling ts = sum_list (map (\<lambda>p. case p of At_call f \<Rightarrow> 1 | _ \<Rightarrow> 0) ts)"

text \<open>
  The invocations done or due are at most one more than the stores that overwrote
  \<open>KIOCB_CANCELLED\<close>, and no more than these stores while the request is not
  cancelled.
\<close>

definition cancel_inv :: "cancel_val \<times> nat list \<times> cancel_pc list \<times> nat \<Rightarrow> bool" where
  "cancel_inv s = (case s of (m, calls, ts, w) \<Rightarrow>
     length calls + calling ts \<le> Suc w
     \<and> (m \<noteq> KIOCB_CANCELLED \<longrightarrow> length calls + calling ts \<le> w))"

text \<open>A request with a cancel function installed.\<close>

definition kiocb_live :: aio_kiocb where
  "kiocb_live = zeroed_kiocb\<lparr>ki_cancel := CancelFn 7, ki_linked := True\<rparr>"

text \<open>A cancel function that reports \<open>-EINVAL\<close> itself.\<close>

definition run_einval :: "nat \<Rightarrow> int" where
  "run_einval f = - EINVAL"

section \<open>Context teardown\<close>

text \<open>\<open>atomic_xchg(v, new)\<close>: the new content and the value returned.\<close>

definition atomic_xchg :: "'a \<Rightarrow> 'a \<Rightarrow> 'a \<times> 'a" where
  "atomic_xchg cur new = (new, cur)"

text \<open>\<open>aio_nr_sub(nr)\<close> on the system-wide counter \<open>aio_nr\<close> (an \<open>unsigned long\<close>).\<close>

definition aio_nr_sub :: "u64 \<Rightarrow> u32 \<Rightarrow> u64" where
  "aio_nr_sub aio_nr nr = (if aio_nr < aio_nr - ucast nr then 0 else aio_nr - ucast nr)"

text \<open>
  \<open>kill_ioctx(mm, ctx, wait)\<close>. \<open>table\<close> is \<open>mm->ioctx_table->table\<close>, whose
  entries are context pointers or \<open>NULL\<close>; \<open>ctx->id\<close> is an index into it since
  \<open>ioctx_add_table\<close>. \<open>percpu_ref_kill\<close> drops the initial reference of \<open>users\<close>.
  The \<open>WARN_ON\<close> only prints a diagnostic and the store to \<open>ctx->rq_wait\<close> touches
  no field of the model; both are left out. The result is the new table, \<open>aio_nr\<close>
  and context, the value returned and the effects in source order.
\<close>

definition kill_ioctx ::
    "nat option list \<Rightarrow> u64 \<Rightarrow> kioctx
       \<Rightarrow> (nat option list \<times> u64 \<times> kioctx) \<times> int \<times> effect list" where
  "kill_ioctx table aio_nr ctx =
     (case atomic_xchg (dead ctx) 1 of
        (d, old) \<Rightarrow>
          if old \<noteq> 0 then
            ((table, aio_nr, ctx\<lparr>dead := d\<rparr>), - EINVAL,
             [Lock_ioctx_lock, Xchg_dead old, Unlock_ioctx_lock])
          else
            ((table[unat (id ctx) := None], aio_nr_sub aio_nr (max_reqs ctx),
              ctx\<lparr>dead := d, users := users ctx - 1\<rparr>), 0,
             [Lock_ioctx_lock, Xchg_dead old, Table_clear (unat (id ctx)), Unlock_ioctx_lock,
              Wake_up_all, Aio_nr_sub (max_reqs ctx)]
             @ (if mmap_size ctx \<noteq> 0 then [Vm_munmap (mmap_base ctx) (mmap_size ctx)] else [])
             @ [Ref_kill_users]))"

text \<open>
  \<open>n\<close> calls of \<open>kill_ioctx\<close> on the same context, in the order of their
  \<open>atomic_xchg\<close> (two \<open>io_destroy\<close>, or \<open>io_destroy\<close> and \<open>exit_aio\<close>): the
  values returned and all effects.
\<close>

fun kill_ioctx_repeat ::
    "nat option list \<Rightarrow> u64 \<Rightarrow> kioctx \<Rightarrow> nat
       \<Rightarrow> (nat option list \<times> u64 \<times> kioctx) \<times> int list \<times> effect list" where
  "kill_ioctx_repeat table aio_nr ctx 0 = ((table, aio_nr, ctx), [], [])"
| "kill_ioctx_repeat table aio_nr ctx (Suc n) =
     (case kill_ioctx table aio_nr ctx of
        ((table1, aio_nr1, ctx1), ret, es) \<Rightarrow>
          (case kill_ioctx_repeat table1 aio_nr1 ctx1 n of
             (s, rets, es2) \<Rightarrow> (s, ret # rets, es @ es2)))"

text \<open>Effects of a call that found the context dead: the lock and the exchange only.\<close>

definition teardown_free :: "effect list \<Rightarrow> bool" where
  "teardown_free es =
     (\<forall>e\<in>set es. e = Lock_ioctx_lock \<or> e = Unlock_ioctx_lock \<or> (\<exists>d. d \<noteq> 0 \<and> e = Xchg_dead d))"

section \<open>Context creation\<close>

text \<open>
  What the kernel build and the machine fix: \<open>PAGE_SIZE\<close>, \<open>num_possible_cpus()\<close>,
  and the sysctl \<open>aio_max_nr\<close> (an \<open>unsigned long\<close>).
\<close>

record sysconf =
  PAGE_SIZE :: nat
  num_possible_cpus :: u32
  aio_max_nr :: u64

text \<open>The page pointers a context holds inline (\<open>internal_pages\<close>).\<close>

definition AIO_RING_PAGES :: int where "AIO_RING_PAGES = 8"

text \<open>
  \<open>aio_setup_ring(ctx)\<close>. Its collaborators are inputs: \<open>fails\<close> says which of them
  fails (by name), \<open>base\<close> is the address \<open>do_mmap_pgoff\<close> returns. \<open>size\<close> is an
  \<open>unsigned long\<close> and cannot overflow from a 32-bit \<open>nr_events\<close>; \<open>nr_pages\<close> is an
  \<open>int\<close> and \<open>PFN_UP\<close> rounds up to whole pages. \<open>kcalloc\<close> is called only for a
  ring of more than \<open>AIO_RING_PAGES\<close> pages. The result is the error or the context
  with the ring set up.
\<close>

definition aio_setup_ring :: "sysconf \<Rightarrow> (string \<Rightarrow> bool) \<Rightarrow> u64 \<Rightarrow> kioctx \<Rightarrow> int + kioctx" where
  "aio_setup_ring conf fails base ctx =
     (let nr_events' = max_reqs ctx;
          nr_events' = nr_events' + 2;
          size = sizeof_aio_ring;
          size = size + sizeof_io_event * unat nr_events';
          nr_pages = sint (word_of_nat ((size + PAGE_SIZE conf - 1) div PAGE_SIZE conf) :: u32)
      in if nr_pages < 0 then Inl (- EINVAL)
         else if fails ''aio_private_file'' then Inl (- ENOMEM)
         else
           (let nr_events' = (word_of_nat
                  ((PAGE_SIZE conf * nat nr_pages - sizeof_aio_ring) div sizeof_io_event) :: u32)
            in if AIO_RING_PAGES < nr_pages \<and> fails ''kcalloc'' then Inl (- ENOMEM)
               else if fails ''find_or_create_page'' then Inl (- ENOMEM)
               else if fails ''do_mmap_pgoff'' then Inl (- ENOMEM)
               else Inr (ctx\<lparr>nr_pages := nr_pages,
                              mmap_size := word_of_nat (nat nr_pages * PAGE_SIZE conf),
                              mmap_base := base, user_id := base,
                              nr_events := nr_events', ring_nr := nr_events',
                              ring_id := - 1, ring_head := 0, ring_tail := 0\<rparr>)))"

text \<open>The context \<open>kmem_cache_zalloc\<close> returns: every field zero.\<close>

definition zeroed_kioctx :: kioctx where
  "zeroed_kioctx = \<lparr>users = 0, dead = 0, reqs = 0, user_id = 0, cpu = [],
     req_batch = 0, max_reqs = 0, nr_events = 0, mmap_base = 0,
     mmap_size = 0, nr_pages = 0, reqs_available = 0, tail = 0,
     completed_events = 0, ring_id = 0, ring_nr = 0, ring_head = 0, ring_tail = 0,
     ring_slots = (\<lambda>_. \<lparr>obj = 0, data = 0, res = 0, res2 = 0\<rparr>), id = 0\<rparr>"

text \<open>
  \<open>ioctx_alloc(nr_events)\<close> with the system-wide counter \<open>aio_nr\<close>; \<open>new_id\<close> is the
  table slot \<open>ioctx_add_table\<close> finds. The result is the new \<open>aio_nr\<close> and the error
  (\<open>ERR_PTR\<close>) or the context.
\<close>

definition ioctx_alloc ::
    "sysconf \<Rightarrow> (string \<Rightarrow> bool) \<Rightarrow> u64 \<Rightarrow> u32 \<Rightarrow> u64 \<Rightarrow> u32 \<Rightarrow> u64 \<times> (int + kioctx)" where
  "ioctx_alloc conf fails base new_id aio_nr nr_events' =
     (let nr_events' = max nr_events' (num_possible_cpus conf * 4);
          nr_events' = nr_events' * 2
      in if 0x10000000 div sizeof_io_event < unat nr_events' then (aio_nr, Inl (- EINVAL))
         else if nr_events' = 0 \<or> aio_max_nr conf * 2 < ucast nr_events'
           then (aio_nr, Inl (- EAGAIN))
         else if fails ''kmem_cache_zalloc'' then (aio_nr, Inl (- ENOMEM))
         else
           (let ctx = zeroed_kioctx\<lparr>max_reqs := nr_events'\<rparr> in
            if fails ''percpu_ref_init users'' then (aio_nr, Inl (- ENOMEM))
            else if fails ''percpu_ref_init reqs'' then (aio_nr, Inl (- ENOMEM))
            else if fails ''alloc_percpu'' then (aio_nr, Inl (- ENOMEM))
            else
              (case aio_setup_ring conf fails base
                      (ctx\<lparr>users := 1, reqs := 1,
                           cpu := replicate (unat (num_possible_cpus conf)) 0\<rparr>) of
                 Inl err \<Rightarrow> (aio_nr, Inl err)
               | Inr ctx \<Rightarrow>
                   (let ctx = ctx\<lparr>reqs_available := nr_events ctx - 1\<rparr>;
                        ctx = ctx\<lparr>req_batch :=
                                (nr_events ctx - 1) div (num_possible_cpus conf * 4)\<rparr>;
                        ctx = (if req_batch ctx < 1 then ctx\<lparr>req_batch := 1\<rparr> else ctx)
                    in if aio_max_nr conf * 2 < aio_nr + ucast nr_events'
                          \<or> aio_nr + ucast nr_events' < aio_nr
                       then (aio_nr, Inl (- EAGAIN))
                       else
                         (let aio_nr = aio_nr + ucast (max_reqs ctx);
                              ctx = ctx\<lparr>users := users ctx + 1, reqs := reqs ctx + 1\<rparr>
                          in if fails ''ioctx_add_table''
                             then (aio_nr_sub aio_nr (max_reqs ctx), Inl (- ENOMEM))
                             else (aio_nr, Inr (ctx\<lparr>id := new_id, ring_id := new_id\<rparr>)))))))"

text \<open>One possible CPU, 4096-byte pages, the default \<open>aio_max_nr\<close>.\<close>

definition conf_small :: sysconf where
  "conf_small = \<lparr>PAGE_SIZE = 4096, num_possible_cpus = 1, aio_max_nr = 0x10000\<rparr>"

text \<open>No collaborator fails.\<close>

definition no_failure :: "string \<Rightarrow> bool" where
  "no_failure name = False"

section \<open>Submission\<close>

text \<open>
  \<open>struct iocb\<close> of the user ABI, the fields \<open>io_submit_one\<close> reads.
\<close>

record iocb =
  aio_data :: u64
  aio_reserved1 :: u32
  aio_lio_opcode :: "16 word"
  aio_fildes :: u32
  aio_buf :: u64
  aio_nbytes :: u64
  aio_offset :: u64
  aio_reserved2 :: u64
  aio_flags :: u32
  aio_resfd :: u32

text \<open>
  An entry of \<open>aio_submit_info[]\<close>: the submit function (\<open>None\<close> for a hole of the
  array, whose \<open>fn\<close> is \<open>NULL\<close>) and the flags. The table is a parameter \<open>tbl\<close>:
  its indices are the \<open>IOCB_CMD_\<close> constants of the user ABI and its extent depends
  on \<open>CONFIG_AIO_THREAD\<close>.
\<close>

type_synonym submit_info = "nat option \<times> u64"

definition NEED_FD :: u64 where "NEED_FD = 1"

definition IOCB_FLAG_RESFD :: u32 where "IOCB_FLAG_RESFD = 1"

text \<open>\<open>IS_ERR\<close> on a pointer, \<open>PTR_ERR\<close>, and \<open>IS_ERR_VALUE\<close> on a \<open>long\<close>.\<close>

definition IS_ERR :: "u64 \<Rightarrow> bool" where
  "IS_ERR p = (- word_of_int MAX_ERRNO \<le> p)"

definition PTR_ERR :: "u64 \<Rightarrow> int" where
  "PTR_ERR p = sint p"

definition IS_ERR_VALUE :: "int \<Rightarrow> bool" where
  "IS_ERR_VALUE x = (- MAX_ERRNO \<le> x \<and> x < 0)"

text \<open>
  What the collaborators of one \<open>io_submit_one\<close> call return: whether
  \<open>kmem_cache_alloc\<close> succeeds, the file \<open>fget\<close> returns (0 for \<open>NULL\<close>), the pointer
  \<open>eventfd_ctx_fdget\<close> returns, whether \<open>put_user\<close> of the key faults, the value the
  submit function returns, and \<open>waitqueue_active\<close> at completion.
\<close>

record submit_env =
  alloc_ok :: bool
  fget :: u64
  eventfd_ctx_fdget :: u64
  put_user_faults :: bool
  fn_ret :: int
  waiters :: bool

text \<open>
  The exit \<open>out_put_req\<close> of \<open>io_submit_one\<close>: \<open>put_reqs_available(ctx, 1)\<close>,
  \<open>percpu_ref_put(&ctx->reqs)\<close>, \<open>kiocb_free(req)\<close>, \<open>return ret\<close>.
\<close>

definition out_put_req ::
    "kioctx \<Rightarrow> nat \<Rightarrow> int \<Rightarrow> (kioctx \<times> int \<times> aio_kiocb option) option" where
  "out_put_req ctx c ret =
     (case put_reqs_available ctx c 1 of
        None \<Rightarrow> None
      | Some ctx' \<Rightarrow> Some (ctx'\<lparr>reqs := reqs ctx' - 1\<rparr>, ret, None))"

text \<open>
  The part of \<open>io_submit_one\<close> that follows a successful \<open>aio_get_req\<close>, from the
  test of \<open>NEED_FD\<close> to the end; \<open>flags\<close> is \<open>submit_info->flags\<close>, \<open>req\<close> the
  request just allocated. The submit function is a collaborator and \<open>fn_ret env\<close>
  the value it returns. The result is the context, the value returned, and the
  request when it was queued and now belongs to the operation.
\<close>

definition io_submit_req ::
    "nat \<Rightarrow> kioctx \<Rightarrow> nat \<Rightarrow> submit_env \<Rightarrow> u64 \<Rightarrow> iocb \<Rightarrow> u64 \<Rightarrow> aio_kiocb
       \<Rightarrow> (kioctx \<times> int \<times> aio_kiocb option) option" where
  "io_submit_req ps ctx c env user_iocb iocb flags req =
     (if flags AND NEED_FD \<noteq> 0 \<and> fget env = 0 then out_put_req ctx c (- EBADF)
      else
        (let req = (if flags AND NEED_FD \<noteq> 0 then req\<lparr>ki_filp := fget env\<rparr> else req);
             req = req\<lparr>ki_pos := aio_offset iocb\<rparr>
         in if aio_flags iocb AND IOCB_FLAG_RESFD \<noteq> 0 \<and> IS_ERR (eventfd_ctx_fdget env)
            then out_put_req ctx c (PTR_ERR (eventfd_ctx_fdget env))
            else
              (let req = (if aio_flags iocb AND IOCB_FLAG_RESFD \<noteq> 0
                          then req\<lparr>ki_eventfd := eventfd_ctx_fdget env\<rparr> else req)
               in if put_user_faults env then out_put_req ctx c (- EFAULT)
                  else
                    (let req = req\<lparr>ki_user_iocb := user_iocb, ki_user_data := aio_data iocb\<rparr>;
                         ret = fn_ret env
                     in if ret \<noteq> - EIOCBQUEUED then
                          (if ret = - ERESTARTSYS \<or> ret = - ERESTARTNOINTR
                              \<or> ret = - ERESTARTNOHAND \<or> ret = - ERESTART_RESTARTBLOCK
                           then
                             (case aio_complete ps ctx c (waiters env) req (- EINTR) 0 of
                                None \<Rightarrow> None
                              | Some (ctx, es) \<Rightarrow> Some (ctx, 0, None))
                           else if IS_ERR_VALUE ret then out_put_req ctx c ret
                           else
                             (case aio_complete ps ctx c (waiters env) req ret 0 of
                                None \<Rightarrow> None
                              | Some (ctx, es) \<Rightarrow> Some (ctx, 0, None)))
                        else Some (ctx, 0, Some req)))))"

text \<open>
  \<open>io_submit_one(ctx, user_iocb, iocb, compat)\<close> on CPU \<open>c\<close> of a 64-bit kernel
  (\<open>unsigned long\<close> and \<open>size_t\<close> have 64 bits); \<open>None\<close> if the call does not return.
\<close>

definition io_submit_one ::
    "nat \<Rightarrow> submit_info list \<Rightarrow> kioctx \<Rightarrow> nat \<Rightarrow> submit_env \<Rightarrow> u64 \<Rightarrow> iocb
       \<Rightarrow> (kioctx \<times> int \<times> aio_kiocb option) option" where
  "io_submit_one ps tbl ctx c env user_iocb iocb =
     (if aio_reserved1 iocb \<noteq> 0 \<or> aio_reserved2 iocb \<noteq> 0 then Some (ctx, - EINVAL, None)
      else if aio_buf iocb \<noteq> ucast (ucast (aio_buf iocb) :: u64)
              \<or> aio_nbytes iocb \<noteq> ucast (ucast (aio_nbytes iocb) :: u64)
              \<or> sint (aio_nbytes iocb) < 0
        then Some (ctx, - EINVAL, None)
      else if length tbl \<le> unat (aio_lio_opcode iocb) then Some (ctx, - EINVAL, None)
      else
        (case tbl ! unat (aio_lio_opcode iocb) of
           (None, flags) \<Rightarrow> Some (ctx, - EINVAL, None)
         | (Some fn, flags) \<Rightarrow>
             (case aio_get_req ctx c (alloc_ok env) of
                None \<Rightarrow> None
              | Some (ctx, None) \<Rightarrow> Some (ctx, - EAGAIN, None)
              | Some (ctx, Some req) \<Rightarrow>
                  io_submit_req ps ctx c env user_iocb iocb flags req)))"

section \<open>Definitions for the lemmas on submission\<close>

text \<open>
  The slots a context accounts for outside in-flight requests: those in the
  admission counter and those of completions not yet recycled.
\<close>

definition slots_total :: "kioctx \<Rightarrow> u32" where
  "slots_total ctx = completed_events ctx + slots_available ctx"

text \<open>Two contexts with the same batch size and the same number of CPUs.\<close>

definition same_shape :: "kioctx \<Rightarrow> kioctx \<Rightarrow> bool" where
  "same_shape ctx ctx' = (req_batch ctx' = req_batch ctx \<and> length (cpu ctx') = length (cpu ctx))"

text \<open>
  What \<open>ioctx_alloc\<close> guarantees about the batch size, and \<open>c\<close> is a CPU of the
  context.
\<close>

definition ready :: "nat \<Rightarrow> kioctx \<Rightarrow> bool" where
  "ready c ctx = (0 < req_batch ctx \<and> unat (req_batch ctx) < 2 ^ 31 \<and> c < length (cpu ctx))"

text \<open>A failed submission after the reservation: the slot is back, the reference dropped.\<close>

definition slot_returned :: "kioctx \<Rightarrow> kioctx \<Rightarrow> bool" where
  "slot_returned ctx ctx' =
     (same_shape ctx ctx' \<and> completed_events ctx' = completed_events ctx
      \<and> slots_available ctx' = slots_available ctx + 1 \<and> reqs ctx' = reqs ctx - 1)"

text \<open>
  What holds of the result of \<open>io_submit_req\<close>: it returns; a failure hands the
  slot back; a synchronous completion moves the slot to \<open>completed_events\<close>; a
  queued request leaves the context as it is.
\<close>

definition submit_post :: "kioctx \<Rightarrow> (kioctx \<times> int \<times> aio_kiocb option) option \<Rightarrow> bool" where
  "submit_post ctx result =
     (case result of
        None \<Rightarrow> False
      | Some (ctx', ret, rq) \<Rightarrow>
          same_shape ctx ctx'
          \<and> (ret \<noteq> 0 \<longrightarrow> rq = None \<and> slot_returned ctx ctx')
          \<and> (ret = 0 \<and> rq = None \<longrightarrow>
                 slots_total ctx' = slots_total ctx + 1 \<and> reqs ctx' = reqs ctx - 1)
          \<and> (ret = 0 \<and> rq \<noteq> None \<longrightarrow> ctx' = ctx))"

section \<open>Definitions for the claims on submission\<close>

text \<open>
  \<open>ctx_small\<close> with every slot taken: nothing in the admission counter, three
  completions published and already consumed by userspace (\<open>head = tail = 5\<close>) but
  not yet recycled.
\<close>

definition ctx_drained :: kioctx where
  "ctx_drained = ctx_small\<lparr>reqs_available := 0, completed_events := 3, tail := 5,
                           ring_head := 5, ring_tail := 5\<rparr>"

text \<open>A table with \<open>aio_rw\<close> and \<open>NEED_FD\<close> at opcode 0 (\<open>IOCB_CMD_PREAD\<close>).\<close>

definition tbl_pread :: "submit_info list" where
  "tbl_pread = [(Some 0, NEED_FD)]"

definition iocb_pread :: iocb where
  "iocb_pread = \<lparr>aio_data = 0xAA, aio_reserved1 = 0, aio_lio_opcode = 0, aio_fildes = 99,
     aio_buf = 0x1000, aio_nbytes = 16, aio_offset = 0, aio_reserved2 = 0, aio_flags = 0,
     aio_resfd = 0\<rparr>"

text \<open>\<open>fget\<close> finds no file for the descriptor; nothing else fails.\<close>

definition env_badfd :: submit_env where
  "env_badfd = \<lparr>alloc_ok = True, fget = 0, eventfd_ctx_fdget = 0, put_user_faults = False,
     fn_ret = 0, waiters = False\<rparr>"

text \<open>The file is found but \<open>kmem_cache_alloc\<close> fails.\<close>

definition env_nomem :: submit_env where
  "env_nomem = env_badfd\<lparr>alloc_ok := False, fget := 0x3000\<rparr>"

section \<open>Batch submission\<close>














section \<open>Properties: data model\<close>

lemmas errno_defs = EINTR_def EBADF_def EAGAIN_def ENOMEM_def EFAULT_def EINVAL_def
  ERESTARTSYS_def ERESTARTNOINTR_def ERESTARTNOHAND_def ERESTART_RESTARTBLOCK_def
  EIOCBQUEUED_def MAX_ERRNO_def

section \<open>Lemmas on the admission counter\<close>

lemma sum_list_update_word:
  fixes xs :: "u32 list"
  shows "i < length xs \<Longrightarrow> sum_list (xs[i := v]) = sum_list xs - xs ! i + v"
proof (induction xs arbitrary: i)
  case Nil
  then show ?case by simp
next
  case (Cons x xs)
  then show ?case by (cases i) simp_all
qed

lemma put_loop_total:
  assumes b: "0 < b" "unat b < 2 ^ 31"
  shows "\<exists>k. put_loop b l g = Some (l - of_nat k * b, g + of_nat k * b)
            \<and> l - of_nat k * b < b * 2 \<and> (0 < k \<longleftrightarrow> b * 2 \<le> l)"
proof (induction "unat l" arbitrary: l g rule: less_induct)
  case less
  have b2: "unat (b * 2) = 2 * unat b"
    using b by (simp add: unat_word_ariths)
  show ?case
  proof (cases "b * 2 \<le> l")
    case False
    then have "put_loop b l g = Some (l, g)" by (subst put_loop.simps) simp
    with False show ?thesis by (intro exI[of _ 0]) (simp add: not_le)
  next
    case True
    then have le: "2 * unat b \<le> unat l" using b2 by (simp add: word_le_nat_alt)
    then have "b \<le> l" by (simp add: word_le_nat_alt)
    then have "unat (l - b) = unat l - unat b" by (simp add: unat_sub)
    moreover have "0 < unat b" using b(1) by (simp add: word_less_nat_alt)
    ultimately have "unat (l - b) < unat l" using le by simp
    from less[OF this, of "g + b"] obtain k where
      k: "put_loop b (l - b) (g + b) = Some (l - b - of_nat k * b, g + b + of_nat k * b)"
         "l - b - of_nat k * b < b * 2" by blast
    have "put_loop b l g = put_loop b (l - b) (g + b)"
      using True by (subst put_loop.simps) simp
    with k True show ?thesis
      by (intro exI[of _ "Suc k"]) (simp add: algebra_simps)
  qed
qed

lemma put_reqs_available_effect:
  assumes b: "0 < req_batch ctx" "unat (req_batch ctx) < 2 ^ 31" and c: "c < length (cpu ctx)"
  shows "\<exists>ctx' k. put_reqs_available ctx c nr = Some ctx'
     \<and> ctx' = ctx\<lparr>cpu := (cpu ctx)[c := cpu ctx ! c + nr - of_nat k * req_batch ctx],
                   reqs_available := reqs_available ctx + of_nat k * req_batch ctx\<rparr>
     \<and> (0 < k \<longleftrightarrow> req_batch ctx * 2 \<le> cpu ctx ! c + nr)
     \<and> cpu ctx ! c + nr - of_nat k * req_batch ctx < req_batch ctx * 2"
proof -
  from put_loop_total[OF b, of "cpu ctx ! c + nr" "reqs_available ctx"]
  obtain k where k:
    "put_loop (req_batch ctx) (cpu ctx ! c + nr) (reqs_available ctx)
       = Some (cpu ctx ! c + nr - of_nat k * req_batch ctx,
               reqs_available ctx + of_nat k * req_batch ctx)"
    "cpu ctx ! c + nr - of_nat k * req_batch ctx < req_batch ctx * 2"
    "0 < k \<longleftrightarrow> req_batch ctx * 2 \<le> cpu ctx ! c + nr"
    by blast
  show ?thesis
    by (rule exI, rule exI[of _ k]) (simp add: put_reqs_available_def k)
qed

lemma put_loop_exact:
  assumes b: "0 < b" "unat b < 2 ^ 31"
  shows "put_loop b l g = Some (l - of_nat (flushed_batches b l * unat b),
                                g + of_nat (flushed_batches b l * unat b))
         \<and> flushed_batches b l * unat b \<le> unat l"
proof (induction "unat l" arbitrary: l g rule: less_induct)
  case less
  have b2: "unat (b * 2) = 2 * unat b"
    using b by (simp add: unat_word_ariths)
  have b0: "0 < unat b" using b(1) by (simp add: word_less_nat_alt)
  show ?case
  proof (cases "b * 2 \<le> l")
    case False
    then have lt: "unat l < 2 * unat b" using b2 by (simp add: word_le_nat_alt)
    from False have "put_loop b l g = Some (l, g)" by (subst put_loop.simps) simp
    with lt show ?thesis by (simp add: flushed_batches_def)
  next
    case True
    then have le: "2 * unat b \<le> unat l" using b2 by (simp add: word_le_nat_alt)
    then have "b \<le> l" by (simp add: word_le_nat_alt)
    then have u: "unat (l - b) = unat l - unat b" by (simp add: unat_sub)
    with b0 le have "unat (l - b) < unat l" by simp
    note ih = less[OF this, of "g + b"]
    have d: "unat l div unat b = Suc ((unat l - unat b) div unat b)"
      using le b0 by (simp add: le_div_geq)
    have two: "2 \<le> unat l div unat b"
    proof -
      have "2 * unat b div unat b \<le> unat l div unat b" by (rule div_le_mono[OF le])
      with b0 show ?thesis by simp
    qed
    have k: "flushed_batches b l = Suc (flushed_batches b (l - b))"
    proof (cases "unat l - unat b < 2 * unat b")
      case True
      then have "(unat l - unat b) div unat b < 2"
        using b0 by (simp add: div_less_iff_less_mult mult.commute)
      with d two have "unat l div unat b = 2" by simp
      with True le show ?thesis by (simp add: flushed_batches_def u)
    next
      case False
      then have "2 * unat b div unat b \<le> (unat l - unat b) div unat b"
        by (intro div_le_mono) simp
      with b0 have "2 \<le> (unat l - unat b) div unat b" by simp
      with False le d show ?thesis by (simp add: flushed_batches_def u)
    qed
    have e: "put_loop b l g = put_loop b (l - b) (g + b)"
      using True by (subst put_loop.simps) simp
    have w: "(of_nat (unat b + flushed_batches b (l - b) * unat b) :: u32)
               = b + of_nat (flushed_batches b (l - b) * unat b)"
      by simp
    from ih have 1: "put_loop b (l - b) (g + b)
         = Some (l - b - of_nat (flushed_batches b (l - b) * unat b),
                 g + b + of_nat (flushed_batches b (l - b) * unat b))"
      and 2: "flushed_batches b (l - b) * unat b \<le> unat l - unat b"
      by (simp_all add: u)
    have 3: "flushed_batches b l * unat b \<le> unat l"
      unfolding k using 2 le by simp
    show ?thesis
      unfolding e 1 k using 3 unfolding k by (simp add: w algebra_simps)
  qed
qed

lemma flushed_batches_pos:
  assumes b: "0 < b" "unat b < 2 ^ 31"
  shows "0 < flushed_batches b l \<longleftrightarrow> b * 2 \<le> l"
proof -
  have b2: "unat (b * 2) = 2 * unat b"
    using b by (simp add: unat_word_ariths)
  have b0: "0 < unat b" using b(1) by (simp add: word_less_nat_alt)
  show ?thesis
  proof (cases "unat l < 2 * unat b")
    case True
    then show ?thesis by (simp add: flushed_batches_def word_le_nat_alt b2)
  next
    case False
    then have "2 * unat b div unat b \<le> unat l div unat b" by (intro div_le_mono) simp
    with b0 have "2 \<le> unat l div unat b" by simp
    with False show ?thesis by (simp add: flushed_batches_def word_le_nat_alt b2)
  qed
qed

lemma flushed_batches_rest:
  assumes b: "0 < b" "unat b < 2 ^ 31" and k: "0 < flushed_batches b l"
  shows "unat b \<le> unat l - flushed_batches b l * unat b"
proof -
  have b0: "0 < unat b" using b(1) by (simp add: word_less_nat_alt)
  from k have f: "flushed_batches b l = unat l div unat b - 1" and "0 < unat l div unat b - 1"
    by (simp_all add: flushed_batches_def split: if_splits)
  have "unat l div unat b * unat b \<le> unat l" by simp
  moreover have "unat l div unat b * unat b = (unat l div unat b - 1) * unat b + unat b"
    using \<open>0 < unat l div unat b - 1\<close> by (simp add: algebra_simps diff_mult_distrib)
  ultimately show ?thesis unfolding f by simp
qed

section \<open>Claims on the admission counter\<close>

text \<open>
  C4, as the code has it. \<open>put_reqs_available(ctx, nr)\<close> returns (for a batch size
  \<open>0 < req_batch < 2^31\<close>, as \<open>ioctx_alloc\<close> sets it), adds \<open>nr\<close> to the local
  counter of the current CPU and moves \<open>k\<close> whole batches of \<open>req_batch\<close> slots from
  the local counter to the global atomic, and changes nothing else. \<open>k\<close> is 0 when
  the local counter after the addition is below \<open>2 * req_batch\<close>, and otherwise the
  number of batches that leaves at least one batch and less than two in the local
  counter; the \<open>k\<close> batches are no more than the local counter held, so the
  subtraction does not wrap. A batch is moved (\<open>k > 0\<close>) exactly when the local
  counter after the addition is at or above \<open>2 * req_batch\<close> (not only when strictly
  above). After the call the local counter is below \<open>2 * req_batch\<close> and the counter
  as a whole has grown by \<open>nr\<close>.
\<close>

theorem put_reqs_available_flush:
  assumes b: "0 < req_batch ctx" "unat (req_batch ctx) < 2 ^ 31" and c: "c < length (cpu ctx)"
  shows "\<exists>ctx' k. put_reqs_available ctx c nr = Some ctx'
     \<and> k = flushed_batches (req_batch ctx) (cpu ctx ! c + nr)
     \<and> k * unat (req_batch ctx) \<le> unat (cpu ctx ! c + nr)
     \<and> ctx' = ctx\<lparr>cpu := (cpu ctx)[c := cpu ctx ! c + nr - of_nat k * req_batch ctx],
                   reqs_available := reqs_available ctx + of_nat k * req_batch ctx\<rparr>
     \<and> unat (cpu ctx' ! c) = unat (cpu ctx ! c + nr) - k * unat (req_batch ctx)
     \<and> (0 < k \<longleftrightarrow> req_batch ctx * 2 \<le> cpu ctx ! c + nr)
     \<and> (0 < k \<longrightarrow> req_batch ctx \<le> cpu ctx' ! c)
     \<and> cpu ctx' ! c < req_batch ctx * 2
     \<and> slots_available ctx' = slots_available ctx + nr"
proof -
  let ?b = "req_batch ctx" and ?l = "cpu ctx ! c + nr"
  let ?k = "flushed_batches ?b ?l"
  let ?w = "of_nat ?k * ?b"
  let ?l' = "?l - ?w"
  let ?ctx' = "ctx\<lparr>cpu := (cpu ctx)[c := ?l'], reqs_available := reqs_available ctx + ?w\<rparr>"
  have w: "(of_nat (?k * unat ?b) :: u32) = ?w" by simp
  note x = put_loop_exact[OF b, of ?l "reqs_available ctx", unfolded w]
  from x have le: "?k * unat ?b \<le> unat ?l" by (rule conjunct2)
  from x have pl: "put_loop ?b ?l (reqs_available ctx) = Some (?l', reqs_available ctx + ?w)"
    by (rule conjunct1)
  have r: "put_reqs_available ctx c nr = Some ?ctx'"
    unfolding put_reqs_available_def pl by simp
  have lc: "cpu ?ctx' ! c = ?l'" using c by simp
  have "?k * unat ?b < 2 ^ 32" using le unsigned_less[of ?l, where 'a=nat] by simp
  then have un: "unat ?w = ?k * unat ?b" by (intro of_nat_inverse[OF w]) simp
  have wl: "?w \<le> ?l" unfolding word_le_nat_alt un by (rule le)
  have u: "unat ?l' = unat ?l - ?k * unat ?b"
    unfolding unat_sub[OF wl] un ..
  have pos: "0 < ?k \<longleftrightarrow> ?b * 2 \<le> ?l" by (rule flushed_batches_pos[OF b])
  have rest: "0 < ?k \<longrightarrow> ?b \<le> ?l'"
  proof
    assume "0 < ?k"
    from flushed_batches_rest[OF b this] show "?b \<le> ?l'"
      unfolding word_le_nat_alt u .
  qed
  from put_loop_total[OF b, of ?l "reqs_available ctx"] pl have lt: "?l' < ?b * 2"
    by auto
  have s: "slots_available ?ctx' = slots_available ctx + nr"
    using c by (simp add: slots_available_def sum_list_update_word)
  show ?thesis
    apply (rule exI[of _ ?ctx'], rule exI[of _ ?k])
    apply (intro conjI)
            apply (rule r)
           apply (rule refl)
          apply (rule le)
         apply (rule refl)
        apply (simp only: lc u)
       apply (rule pos)
      apply (simp only: lc, rule rest)
     apply (simp only: lc, rule lt)
    apply (rule s)
    done
qed

text \<open>
  The theorem at \<open>ctx_small\<close>, CPU 0, \<open>nr = 70\<close>: one batch of 31 is moved, 39
  slots stay in the local counter.
\<close>

theorem put_reqs_available_flush_witness:
  "0 < req_batch ctx_small \<and> unat (req_batch ctx_small) < 2 ^ 31 \<and> 0 < length (cpu ctx_small)
   \<and> put_reqs_available ctx_small 0 70 = Some (ctx_small\<lparr>cpu := [39], reqs_available := 157\<rparr>)
   \<and> flushed_batches (req_batch ctx_small) (cpu ctx_small ! 0 + 70) = 1
   \<and> slots_available (ctx_small\<lparr>cpu := [39], reqs_available := 157\<rparr>)
       = slots_available ctx_small + 70"
proof -
  have h: "0 < req_batch ctx_small" "unat (req_batch ctx_small) < 2 ^ 31"
    "0 < length (cpu ctx_small)"
    by (simp_all add: ctx_small_def)
  have k: "flushed_batches (req_batch ctx_small) (cpu ctx_small ! 0 + 70) = 1"
    by (simp add: flushed_batches_def ctx_small_def)
  from put_reqs_available_flush[OF h, of 70] obtain ctx' where
    r: "put_reqs_available ctx_small 0 70 = Some ctx'"
    and e: "ctx' = ctx_small\<lparr>cpu := (cpu ctx_small)[0 := cpu ctx_small ! 0 + 70
                   - of_nat (flushed_batches (req_batch ctx_small) (cpu ctx_small ! 0 + 70))
                       * req_batch ctx_small],
                   reqs_available := reqs_available ctx_small
                     + of_nat (flushed_batches (req_batch ctx_small) (cpu ctx_small ! 0 + 70))
                       * req_batch ctx_small\<rparr>"
    and s: "slots_available ctx' = slots_available ctx_small + 70"
    by blast
  have c: "ctx' = ctx_small\<lparr>cpu := [39], reqs_available := 157\<rparr>"
    unfolding e k by (simp add: ctx_small_def)
  from h r s k show ?thesis unfolding c by simp
qed

text \<open>
  C4 as stated fails: with \<open>req_batch = 31\<close> and a local counter of 61, releasing one
  slot brings the local counter to \<open>62 = 2 * req_batch\<close>, which does not strictly
  exceed \<open>2 * req_batch\<close>, and a batch is flushed to the global atomic all the same.
\<close>

theorem put_reqs_available_flush_at_threshold:
  "put_reqs_available (ctx_small\<lparr>cpu := [61]\<rparr>) 0 1
     = Some (ctx_small\<lparr>cpu := [31], reqs_available := 126 + 31\<rparr>)
   \<and> \<not> (req_batch (ctx_small\<lparr>cpu := [61]\<rparr>) * 2 < cpu (ctx_small\<lparr>cpu := [61]\<rparr>) ! 0 + 1)"
  by (simp add: put_reqs_available_def put_loop.simps ctx_small_def word_le_nat_alt)








section \<open>Lemmas on the completion ring\<close>

lemma put_reqs_available_frame:
  "put_reqs_available ctx c n = Some ctx' \<Longrightarrow>
     ctx' = ctx\<lparr>cpu := cpu ctx', reqs_available := reqs_available ctx'\<rparr>"
  by (cases "put_loop (req_batch ctx) (cpu ctx ! c + n) (reqs_available ctx)")
     (auto simp: put_reqs_available_def)

lemma put_reqs_available_slots:
  assumes b: "0 < req_batch ctx" "unat (req_batch ctx) < 2 ^ 31" and c: "c < length (cpu ctx)"
  shows "\<exists>ctx'. put_reqs_available ctx c n = Some ctx'
           \<and> slots_available ctx' = slots_available ctx + n
           \<and> length (cpu ctx') = length (cpu ctx)"
proof -
  from put_reqs_available_effect[OF assms, of n] obtain ctx' k where
    r: "put_reqs_available ctx c n = Some ctx'"
       "ctx' = ctx\<lparr>cpu := (cpu ctx)[c := cpu ctx ! c + n - of_nat k * req_batch ctx],
                   reqs_available := reqs_available ctx + of_nat k * req_batch ctx\<rparr>"
    by blast
  have "slots_available ctx' = slots_available ctx + n"
    using c by (simp add: r(2) slots_available_def sum_list_update_word)
  moreover have "length (cpu ctx') = length (cpu ctx)" by (simp add: r(2))
  ultimately show ?thesis using r(1) by blast
qed

lemma refill_count_le: "refill_count ctx head tail' \<le> completed_events ctx"
  by (simp add: refill_count_def Let_def word_le_nat_alt word_less_nat_alt unat_sub)

lemma refill_reqs_available_eq:
  "refill_reqs_available ctx c head tail' =
     (if refill_count ctx head tail' = 0 then Some ctx
      else put_reqs_available
             (ctx\<lparr>completed_events := completed_events ctx - refill_count ctx head tail'\<rparr>) c
             (refill_count ctx head tail'))"
  by (simp add: refill_reqs_available_def refill_count_def Let_def)

lemma refill_reqs_available_effect:
  assumes b: "0 < req_batch ctx" "unat (req_batch ctx) < 2 ^ 31" and c: "c < length (cpu ctx)"
  shows "\<exists>ctx'. refill_reqs_available ctx c head tail' = Some ctx'
           \<and> ctx' = ctx\<lparr>completed_events := completed_events ctx - refill_count ctx head tail',
                         cpu := cpu ctx', reqs_available := reqs_available ctx'\<rparr>
           \<and> slots_available ctx' = slots_available ctx + refill_count ctx head tail'
           \<and> length (cpu ctx') = length (cpu ctx)"
proof (cases "refill_count ctx head tail' = 0")
  case True
  then show ?thesis by (simp add: refill_reqs_available_eq)
next
  case False
  let ?n = "refill_count ctx head tail'"
  let ?c1 = "ctx\<lparr>completed_events := completed_events ctx - ?n\<rparr>"
  have b1: "0 < req_batch ?c1" "unat (req_batch ?c1) < 2 ^ 31" "c < length (cpu ?c1)"
    using assms by simp_all
  from put_reqs_available_slots[OF b1, of ?n] obtain ctx' where
    r: "put_reqs_available ?c1 c ?n = Some ctx'"
       "slots_available ctx' = slots_available ?c1 + ?n"
       "length (cpu ctx') = length (cpu ?c1)"
    by blast
  from put_reqs_available_frame[OF r(1)]
  have f: "ctx' = ctx\<lparr>completed_events := completed_events ctx - ?n,
                         cpu := cpu ctx', reqs_available := reqs_available ctx'\<rparr>"
    by simp
  have s: "slots_available ?c1 = slots_available ctx" by (simp add: slots_available_def)
  from False r f s show ?thesis by (simp add: refill_reqs_available_eq)
qed

lemma AIO_EVENTS_OFFSET_one: "32 \<le> ps \<Longrightarrow> AIO_EVENTS_OFFSET ps = 1"
proof -
  assume "32 \<le> ps"
  then have "ps div 32 = Suc ((ps - 32) div 32)"
    by (simp add: le_div_geq)
  then show ?thesis
    by (simp add: AIO_EVENTS_OFFSET_def AIO_EVENTS_PER_PAGE_def AIO_EVENTS_FIRST_PAGE_def
        sizeof_aio_ring_def sizeof_io_event_def)
qed

lemma tail_advance_mod:
  fixes t n :: u32
  assumes "t < n"
  shows "(if n \<le> t + 1 then 0 else t + 1) = (t + 1) mod n"
proof -
  from assms have lt: "unat t < unat n" by (simp add: word_less_nat_alt)
  have "unat n < 2 ^ 32" using unsigned_less[of n] by simp
  with lt have u: "unat (t + 1) = unat t + 1" by (simp add: unat_word_ariths)
  show ?thesis
  proof (cases "n \<le> t + 1")
    case True
    then have "unat n \<le> unat t + 1" using u by (simp add: word_le_nat_alt)
    with lt have "unat (t + 1) = unat n" using u by simp
    then have "t + 1 = n" by (simp add: word_unat_eq_iff)
    with True show ?thesis by simp
  next
    case False
    then have "t + 1 < n" by simp
    then have "(t + 1) mod n = t + 1" by (simp add: word_mod_less_divisor mod_word_less)
    with False show ?thesis by simp
  qed
qed

lemma aio_complete_eq:
  "aio_complete ps ctx c w iocb rs rs2 =
     (if 1 < completed_events ctx + 1 then
        (case refill_reqs_available (published ps ctx iocb rs rs2) c (ring_head ctx)
                (if nr_events ctx \<le> tail ctx + 1 then 0 else tail ctx + 1) of
           None \<Rightarrow> None
         | Some ctx5 \<Rightarrow> Some (ctx5\<lparr>reqs := reqs ctx5 - 1\<rparr>,
                              complete_effects ps ctx w iocb rs rs2))
      else Some ((published ps ctx iocb rs rs2)\<lparr>reqs := reqs ctx - 1\<rparr>,
                 complete_effects ps ctx w iocb rs rs2))"
  by (simp add: aio_complete_def published_def complete_effects_def Let_def
           split: option.split)

lemma read_events_loop_total:
  assumes ps: "32 \<le> ps" and h: "head < nr_events ctx" and t: "tail' < nr_events ctx"
    and rd: "\<forall>p\<in>set rd. 1 \<le> p \<and> p \<le> unat (nr_events ctx)"
  shows "case read_events_loop ps ctx cf nr head tail' ret rd of
           None \<Rightarrow> False
         | Some (faulted, head', ret', rd') \<Rightarrow>
             head' < nr_events ctx
             \<and> (\<forall>p\<in>set rd'. 1 \<le> p \<and> p \<le> unat (nr_events ctx))
             \<and> (if faulted then ret' = - EFAULT
                else ret \<le> ret' \<and> ret' \<le> max ret nr
                     \<and> int (length rd') = int (length rd) + (ret' - ret))"
  using h rd
proof (induction "nat (nr - ret)" arbitrary: head ret rd rule: less_induct)
  case less
  let ?N = "unat (nr_events ctx)"
  let ?H = "unat head"
  let ?T = "unat tail'"
  let ?pp = "AIO_EVENTS_PER_PAGE ps"
  have off: "AIO_EVENTS_OFFSET ps = 1" by (rule AIO_EVENTS_OFFSET_one[OF ps])
  have pp: "0 < ?pp" using ps by (simp add: AIO_EVENTS_PER_PAGE_def sizeof_io_event_def div_greater_zero_iff)
  have HN: "?H < ?N" using less.prems(1) by (simp add: word_less_nat_alt)
  have TN: "?T < ?N" using t by (simp add: word_less_nat_alt)
  have N32: "?N < 2 ^ 32" using unsigned_less[of "nr_events ctx"] by simp
  show ?case
  proof (cases "ret < nr")
    case False
    then have "read_events_loop ps ctx cf nr head tail' ret rd = Some (False, head, ret, rd)"
      by (subst read_events_loop.simps) simp
    with less.prems False show ?thesis by simp
  next
    case lt: True
    show ?thesis
    proof (cases "head = tail'")
      case True
      then have "read_events_loop ps ctx cf nr head tail' ret rd = Some (False, head, ret, rd)"
        using lt by (subst read_events_loop.simps) (simp add: Let_def)
      with less.prems lt show ?thesis by simp
    next
      case ne: False
      define a0 where "a0 = unat ((if head \<le> tail' then tail' else nr_events ctx) - head)"
      define avail where "avail = min (min (int a0) (nr - ret))
          (int (?pp - (?H + AIO_EVENTS_OFFSET ps) mod ?pp))"
      define first where "first = (unat (head + of_nat (AIO_EVENTS_OFFSET ps)) div ?pp) * ?pp
          + unat (head + of_nat (AIO_EVENTS_OFFSET ps)) mod ?pp"
      have a0: "a0 = (if ?H \<le> ?T then ?T - ?H else ?N - ?H)"
        using less.prems(1) by (simp add: a0_def unat_sub word_le_nat_alt word_less_nat_alt)
      have HT: "?H \<noteq> ?T" using ne by (simp add: word_unat_eq_iff)
      have a0_pos: "1 \<le> a0" using HT HN unfolding a0 by (cases "?H \<le> ?T") simp_all
      have a0_le: "?H + a0 \<le> ?N" using HN TN unfolding a0 by (cases "?H \<le> ?T") simp_all
      have "(?H + AIO_EVENTS_OFFSET ps) mod ?pp < ?pp" using pp by simp
      then have av_pos: "1 \<le> avail" using a0_pos lt by (simp add: avail_def)
      have av_le: "avail \<le> int a0" "avail \<le> nr - ret" by (simp_all add: avail_def)
      have first: "first = ?H + 1"
      proof -
        have "unat (head + of_nat (AIO_EVENTS_OFFSET ps)) = ?H + 1"
          using HN N32 by (simp add: off unat_word_ariths)
        then show ?thesis by (simp add: first_def)
      qed
      show ?thesis
      proof (cases "cf ret avail")
        case True
        then have "read_events_loop ps ctx cf nr head tail' ret rd = Some (True, head, - EFAULT, rd)"
          using lt ne
          by (subst read_events_loop.simps) (simp add: Let_def avail_def a0_def)
        with less.prems show ?thesis by simp
      next
        case nf: False
        let ?head' = "(head + word_of_int avail) mod nr_events ctx"
        let ?rd' = "rd @ [first ..< first + nat avail]"
        have step: "read_events_loop ps ctx cf nr head tail' ret rd
                      = read_events_loop ps ctx cf nr ?head' tail' (ret + avail) ?rd'"
          using lt ne nf
          by (subst read_events_loop.simps) (simp add: Let_def avail_def a0_def first_def)
        have m: "nat (nr - (ret + avail)) < nat (nr - ret)" using av_pos lt by simp
        have "0 < nr_events ctx" using HN by (simp add: word_less_nat_alt)
        then have h': "?head' < nr_events ctx" by (simp add: word_mod_less_divisor)
        have "nat avail \<le> a0" using av_le(1) by simp
        then have "first + nat avail \<le> ?N + 1" using a0_le by (simp add: first)
        then have rd': "\<forall>p\<in>set ?rd'. 1 \<le> p \<and> p \<le> ?N"
          using less.prems(2) by (auto simp: first)
        from less.hyps[OF m h' rd'] obtain faulted hd' ret' rdf where
          r: "read_events_loop ps ctx cf nr ?head' tail' (ret + avail) ?rd'
                = Some (faulted, hd', ret', rdf)"
             "hd' < nr_events ctx" "\<forall>p\<in>set rdf. 1 \<le> p \<and> p \<le> ?N"
             "if faulted then ret' = - EFAULT
              else ret + avail \<le> ret' \<and> ret' \<le> max (ret + avail) nr
                   \<and> int (length rdf) = int (length ?rd') + (ret' - (ret + avail))"
          by (cases "read_events_loop ps ctx cf nr ?head' tail' (ret + avail) ?rd'") auto
        have "if faulted then ret' = - EFAULT
              else ret \<le> ret' \<and> ret' \<le> max ret nr
                   \<and> int (length rdf) = int (length rd) + (ret' - ret)"
          using r(4) av_pos av_le(2) by (auto simp: max_def split: if_splits)
        with r(1-3) step show ?thesis by simp
      qed
    qed
  qed
qed

lemma ctx_small_facts:
  "req_batch ctx_small = 31" "cpu ctx_small = [0]" "nr_events ctx_small = 127"
  "tail ctx_small = 0" "ring_tail ctx_small = 0" "ring_head ctx_small = 0"
  "reqs_available ctx_small = 126" "completed_events ctx_small = 0"
  by (simp_all add: ctx_small_def)

lemma complete_effects_shape:
  "\<exists>pre post.
     complete_effects ps ctx w iocb rs rs2 =
       pre @ [Lock_completion_lock,
              Store_event (unat (tail ctx + of_nat (AIO_EVENTS_OFFSET ps)))
                \<lparr>obj = ki_user_iocb iocb, data = ki_user_data iocb, res = rs, res2 = rs2\<rparr>,
              Store_ctx_tail (if nr_events ctx \<le> tail ctx + 1 then 0 else tail ctx + 1),
              Store_ring_tail (if nr_events ctx \<le> tail ctx + 1 then 0 else tail ctx + 1),
              Inc_completed_events]
           @ (if 1 < completed_events ctx + 1
              then [Call_refill (ring_head ctx)
                      (if nr_events ctx \<le> tail ctx + 1 then 0 else tail ctx + 1)]
              else [])
           @ [Unlock_completion_lock] @ post
     \<and> set pre \<subseteq> {Lock_ctx_lock, List_del, Unlock_ctx_lock}
     \<and> set post \<subseteq> {Eventfd_signal (ki_eventfd iocb), Kiocb_free, Wake_up, Ref_put_reqs}"
  unfolding complete_effects_def
  by (rule exI[of _ "if ki_linked iocb then [Lock_ctx_lock, List_del, Unlock_ctx_lock] else []"],
      rule exI[of _ "(if ki_eventfd iocb \<noteq> 0 then [Eventfd_signal (ki_eventfd iocb)] else [])
                 @ [Kiocb_free] @ (if w then [Wake_up] else []) @ [Ref_put_reqs]"])
     auto

section \<open>Claims on the completion ring\<close>

text \<open>
  C7. \<open>aio_complete\<close> on a context whose \<open>tail\<close> is inside the ring returns.
  The event (\<open>obj\<close>, \<open>data\<close>, \<open>res\<close>, \<open>res2\<close>) is stored in the slot
  \<open>tail + AIO_EVENTS_OFFSET\<close> of the ring pages, taken from the tail before it
  is advanced; the new tail is \<open>(tail + 1) mod nr_events\<close> and is stored in the
  context and in the ring header. \<open>completed_events\<close> is incremented once; the
  refill runs exactly when the incremented value is greater than 1, and without it
  the admission counter is untouched; with it, what leaves \<open>completed_events\<close>
  enters the admission counter. The stores, the increment and the refill lie between
  taking and releasing \<open>completion_lock\<close>; before the lock there is only the
  removal from the active list, after it only the eventfd signal, the free, the
  wake-up and the reference put.
\<close>

theorem aio_complete_publish:
  assumes b: "0 < req_batch ctx" "unat (req_batch ctx) < 2 ^ 31"
    and c: "c < length (cpu ctx)"
    and t: "tail ctx < nr_events ctx"
  shows "\<exists>ctx' es. aio_complete ps ctx c w iocb rs rs2 = Some (ctx', es)
     \<and> ring_slots ctx' = (ring_slots ctx)
          (unat (tail ctx + of_nat (AIO_EVENTS_OFFSET ps)) :=
             \<lparr>obj = ki_user_iocb iocb, data = ki_user_data iocb, res = rs, res2 = rs2\<rparr>)
     \<and> tail ctx' = (tail ctx + 1) mod nr_events ctx
     \<and> ring_tail ctx' = tail ctx'
     \<and> completed_events ctx' + slots_available ctx'
         = completed_events ctx + 1 + slots_available ctx
     \<and> (\<not> 1 < completed_events ctx + 1 \<longrightarrow>
           completed_events ctx' = completed_events ctx + 1
           \<and> cpu ctx' = cpu ctx \<and> reqs_available ctx' = reqs_available ctx)
     \<and> (\<exists>pre post.
           es = pre @ [Lock_completion_lock,
                       Store_event (unat (tail ctx + of_nat (AIO_EVENTS_OFFSET ps)))
                         \<lparr>obj = ki_user_iocb iocb, data = ki_user_data iocb,
                            res = rs, res2 = rs2\<rparr>,
                       Store_ctx_tail (tail ctx'), Store_ring_tail (tail ctx'),
                       Inc_completed_events]
                 @ (if 1 < completed_events ctx + 1
                    then [Call_refill (ring_head ctx) (tail ctx')] else [])
                 @ [Unlock_completion_lock] @ post
           \<and> set pre \<subseteq> {Lock_ctx_lock, List_del, Unlock_ctx_lock}
           \<and> set post \<subseteq> {Eventfd_signal (ki_eventfd iocb), Kiocb_free, Wake_up,
                            Ref_put_reqs})"
proof -
  let ?p = "published ps ctx iocb rs rs2"
  let ?t = "if nr_events ctx \<le> tail ctx + 1 then 0 else tail ctx + 1"
  let ?es = "complete_effects ps ctx w iocb rs rs2"
  have tm: "?t = (tail ctx + 1) mod nr_events ctx" by (rule tail_advance_mod[OF t])
  have p: "ring_slots ?p = (ring_slots ctx)
          (unat (tail ctx + of_nat (AIO_EVENTS_OFFSET ps)) :=
             \<lparr>obj = ki_user_iocb iocb, data = ki_user_data iocb, res = rs, res2 = rs2\<rparr>)"
      "tail ?p = ?t" "ring_tail ?p = ?t" "completed_events ?p = completed_events ctx + 1"
      "cpu ?p = cpu ctx" "reqs_available ?p = reqs_available ctx" "req_batch ?p = req_batch ctx"
    by (simp_all add: published_def)
  have sp: "slots_available ?p = slots_available ctx" by (simp add: slots_available_def p)
  note sh = complete_effects_shape[of ps ctx w iocb rs rs2, folded tm]
  show ?thesis
  proof (cases "1 < completed_events ctx + 1")
    case False
    let ?c' = "?p\<lparr>reqs := reqs ctx - 1\<rparr>"
    have r: "aio_complete ps ctx c w iocb rs rs2 = Some (?c', ?es)"
      using False by (simp add: aio_complete_eq)
    have f: "ring_slots ?c' = ring_slots ?p" "tail ?c' = tail ?p" "ring_tail ?c' = ring_tail ?p"
      "completed_events ?c' = completed_events ?p" "cpu ?c' = cpu ?p"
      "reqs_available ?c' = reqs_available ?p"
      by simp_all
    have s: "slots_available ?c' = slots_available ctx"
      unfolding slots_available_def f p ..
    show ?thesis
      apply (rule exI[of _ ?c'], rule exI[of _ ?es], intro conjI)
            apply (rule r)
           apply (simp only: f p)
          apply (simp only: f p tm)
         apply (simp only: f p)
        apply (simp only: f p s)
       apply (simp only: f p False, simp)
      using sh False apply (simp only: f p tm)
      done
  next
    case True
    have bp: "0 < req_batch ?p" "unat (req_batch ?p) < 2 ^ 31" "c < length (cpu ?p)"
      using b c by (simp_all add: p)
    from refill_reqs_available_effect[OF bp, of "ring_head ctx" ?t] obtain ctx5 where
      r5: "refill_reqs_available ?p c (ring_head ctx) ?t = Some ctx5"
      and f5: "ctx5 = ?p\<lparr>completed_events :=
                           completed_events ?p - refill_count ?p (ring_head ctx) ?t,
                         cpu := cpu ctx5, reqs_available := reqs_available ctx5\<rparr>"
      and s5: "slots_available ctx5 = slots_available ?p + refill_count ?p (ring_head ctx) ?t"
      by blast
    let ?c' = "ctx5\<lparr>reqs := reqs ctx5 - 1\<rparr>"
    have r: "aio_complete ps ctx c w iocb rs rs2 = Some (?c', ?es)"
      using True by (simp add: aio_complete_eq r5)
    have g: "ring_slots ctx5 = ring_slots ?p" "tail ctx5 = tail ?p" "ring_tail ctx5 = ring_tail ?p"
      "completed_events ctx5 = completed_events ?p - refill_count ?p (ring_head ctx) ?t"
      by (subst f5, simp)+
    have f: "ring_slots ?c' = ring_slots ?p" "tail ?c' = tail ?p" "ring_tail ?c' = ring_tail ?p"
      "completed_events ?c' = completed_events ?p - refill_count ?p (ring_head ctx) ?t"
      by (simp_all add: g)
    have s: "slots_available ?c' = slots_available ctx5" by (simp add: slots_available_def)
    have cons: "completed_events ?c' + slots_available ?c'
         = completed_events ctx + 1 + slots_available ctx"
      unfolding s s5 f p sp by simp
    show ?thesis
      apply (rule exI[of _ ?c'], rule exI[of _ ?es], intro conjI)
            apply (rule r)
           apply (simp only: f p)
          apply (simp only: f p tm)
         apply (simp only: f p)
        apply (rule cons)
       apply (simp only: True, simp)
      using sh True apply (simp only: f p tm)
      done
  qed
qed

text \<open>The theorem at \<open>ctx_small\<close>: the first completion goes to slot 1 of page 0.\<close>

theorem aio_complete_publish_witness:
  "0 < req_batch ctx_small \<and> unat (req_batch ctx_small) < 2 ^ 31
   \<and> 0 < length (cpu ctx_small) \<and> tail ctx_small < nr_events ctx_small
   \<and> (\<exists>ctx' es. aio_complete 4096 ctx_small 0 False zeroed_kiocb 16 0 = Some (ctx', es)
         \<and> tail ctx' = 1 \<and> ring_tail ctx' = 1 \<and> completed_events ctx' = 1
         \<and> ring_slots ctx' 1 = \<lparr>obj = 0, data = 0, res = 16, res2 = 0\<rparr>)"
proof -
  have h: "0 < req_batch ctx_small" "unat (req_batch ctx_small) < 2 ^ 31"
    "0 < length (cpu ctx_small)" "tail ctx_small < nr_events ctx_small"
    by (simp_all add: ctx_small_facts)
  have off: "AIO_EVENTS_OFFSET 4096 = 1" by (rule AIO_EVENTS_OFFSET_one) simp
  from aio_complete_publish[OF h, of 4096 False zeroed_kiocb 16 0]
  obtain ctx' es where
    r: "aio_complete 4096 ctx_small 0 False zeroed_kiocb 16 0 = Some (ctx', es)"
    and s: "ring_slots ctx' = (ring_slots ctx_small)
          (unat (tail ctx_small + of_nat (AIO_EVENTS_OFFSET 4096)) :=
             \<lparr>obj = ki_user_iocb zeroed_kiocb, data = ki_user_data zeroed_kiocb,
                res = 16, res2 = 0\<rparr>)"
    and t: "tail ctx' = (tail ctx_small + 1) mod nr_events ctx_small"
           "ring_tail ctx' = tail ctx'"
    and e: "\<not> 1 < completed_events ctx_small + 1 \<longrightarrow>
           completed_events ctx' = completed_events ctx_small + 1
           \<and> cpu ctx' = cpu ctx_small \<and> reqs_available ctx' = reqs_available ctx_small"
    by blast
  have 1: "tail ctx' = 1" "ring_tail ctx' = 1" using t by (simp_all add: ctx_small_facts)
  have 2: "completed_events ctx' = 1" using e by (simp add: ctx_small_facts)
  have 3: "ring_slots ctx' 1 = \<lparr>obj = 0, data = 0, res = 16, res2 = 0\<rparr>"
    unfolding s by (simp add: off ctx_small_facts zeroed_kiocb_def)
  from h r 1 2 3 show ?thesis by blast
qed

text \<open>
  C1. Let \<open>h\<close> be any 32-bit value in the \<open>head\<close> field of the ring header.
  \<open>aio_read_events_ring\<close> returns; every slot it copies from holds a record
  with index below \<open>nr_events\<close> (the slot number less \<open>AIO_EVENTS_OFFSET\<close>); it
  returns \<open>-EFAULT\<close> or the number of records copied, between 0 and \<open>nr\<close>; the
  head it leaves in the header is \<open>h\<close> untouched or a value below \<open>nr_events\<close>;
  and with \<open>h\<close> equal to the tail in the header it returns 0 and copies nothing.
  \<open>refill_reqs_available\<close> called with \<open>h\<close> and any tail returns, and moves to
  the admission counter a number of slots \<open>k\<close> that is at most
  \<open>completed_events\<close>, taking the same \<open>k\<close> off \<open>completed_events\<close>.
\<close>

theorem ring_head_untrusted:
  assumes ps: "32 \<le> ps" and n: "0 < nr_events ctx"
    and b: "0 < req_batch ctx" "unat (req_batch ctx) < 2 ^ 31" and c: "c < length (cpu ctx)"
  shows "(\<exists>ctx' ret rd.
            aio_read_events_ring ps (ctx\<lparr>ring_head := h\<rparr>) cf nr = Some (ctx', ret, rd)
            \<and> (\<forall>p\<in>set rd. AIO_EVENTS_OFFSET ps \<le> p
                   \<and> p - AIO_EVENTS_OFFSET ps < unat (nr_events ctx))
            \<and> (ret = - EFAULT \<or> 0 \<le> ret \<and> ret \<le> max 0 nr \<and> int (length rd) = ret)
            \<and> (ring_head ctx' = h \<or> ring_head ctx' < nr_events ctx)
            \<and> (h = ring_tail ctx \<longrightarrow> ret = 0 \<and> rd = []))
       \<and> (\<exists>ctx' k. refill_reqs_available ctx c h t = Some ctx'
            \<and> k \<le> completed_events ctx
            \<and> completed_events ctx' = completed_events ctx - k
            \<and> slots_available ctx' = slots_available ctx + k)"
proof
  let ?c = "ctx\<lparr>ring_head := h\<rparr>"
  have off: "AIO_EVENTS_OFFSET ps = 1" by (rule AIO_EVENTS_OFFSET_one[OF ps])
  show "\<exists>ctx' ret rd.
            aio_read_events_ring ps ?c cf nr = Some (ctx', ret, rd)
            \<and> (\<forall>p\<in>set rd. AIO_EVENTS_OFFSET ps \<le> p
                   \<and> p - AIO_EVENTS_OFFSET ps < unat (nr_events ctx))
            \<and> (ret = - EFAULT \<or> 0 \<le> ret \<and> ret \<le> max 0 nr \<and> int (length rd) = ret)
            \<and> (ring_head ctx' = h \<or> ring_head ctx' < nr_events ctx)
            \<and> (h = ring_tail ctx \<longrightarrow> ret = 0 \<and> rd = [])"
  proof (cases "h = ring_tail ctx")
    case True
    then have "aio_read_events_ring ps ?c cf nr = Some (?c, 0, [])"
      by (simp add: aio_read_events_ring_def)
    then show ?thesis by simp
  next
    case False
    let ?h = "h mod nr_events ctx"
    let ?t = "ring_tail ctx mod nr_events ctx"
    have hn: "?h < nr_events ?c" "?t < nr_events ?c"
      using n by (simp_all add: word_mod_less_divisor)
    have e: "\<forall>p\<in>set ([]::nat list). 1 \<le> p \<and> p \<le> unat (nr_events ?c)" by simp
    from read_events_loop_total[OF ps hn e, where cf=cf and nr=nr and ret=0]
    obtain faulted head' ret rd where
      l: "read_events_loop ps ?c cf nr ?h ?t 0 [] = Some (faulted, head', ret, rd)"
      and h': "head' < nr_events ctx"
      and rd: "\<forall>p\<in>set rd. 1 \<le> p \<and> p \<le> unat (nr_events ctx)"
      and ret: "if faulted then ret = - EFAULT
                else 0 \<le> ret \<and> ret \<le> max 0 nr \<and> int (length rd) = ret"
      by (cases "read_events_loop ps ?c cf nr ?h ?t 0 []") auto
    let ?c' = "if faulted then ?c else ?c\<lparr>ring_head := head'\<rparr>"
    have r: "aio_read_events_ring ps ?c cf nr = Some (?c', ret, rd)"
      using False l by (simp add: aio_read_events_ring_def)
    have 1: "\<forall>p\<in>set rd. AIO_EVENTS_OFFSET ps \<le> p
                   \<and> p - AIO_EVENTS_OFFSET ps < unat (nr_events ctx)"
      using rd unfolding off by auto
    have 2: "ret = - EFAULT \<or> 0 \<le> ret \<and> ret \<le> max 0 nr \<and> int (length rd) = ret"
      using ret by (cases faulted) simp_all
    have 3: "ring_head ?c' = h \<or> ring_head ?c' < nr_events ctx"
      using h' by (cases faulted) simp_all
    from r 1 2 3 False show ?thesis by blast
  qed
next
  from refill_reqs_available_effect[OF b c, of h t] obtain ctx' where
    r: "refill_reqs_available ctx c h t = Some ctx'"
    and f: "ctx' = ctx\<lparr>completed_events := completed_events ctx - refill_count ctx h t,
                       cpu := cpu ctx', reqs_available := reqs_available ctx'\<rparr>"
    and s: "slots_available ctx' = slots_available ctx + refill_count ctx h t"
    by blast
  have "completed_events ctx' = completed_events ctx - refill_count ctx h t"
    by (subst f) simp
  with r s refill_count_le[of ctx h t]
  show "\<exists>ctx' k. refill_reqs_available ctx c h t = Some ctx'
            \<and> k \<le> completed_events ctx
            \<and> completed_events ctx' = completed_events ctx - k
            \<and> slots_available ctx' = slots_available ctx + k"
    by blast
qed

text \<open>
  The theorem at \<open>ctx_small\<close>: with \<open>head = 0xFFFFFFFF\<close> written by userspace,
  and with \<open>head = 0\<close>, equal to the tail of the header, where nothing is read.
\<close>

theorem ring_head_untrusted_witness:
  "(32::nat) \<le> 4096 \<and> 0 < nr_events ctx_small \<and> 0 < req_batch ctx_small
   \<and> unat (req_batch ctx_small) < 2 ^ 31 \<and> 0 < length (cpu ctx_small)
   \<and> (\<exists>ctx' ret rd.
         aio_read_events_ring 4096 (ctx_small\<lparr>ring_head := 0xFFFFFFFF\<rparr>) (\<lambda>_ _. False) 200
           = Some (ctx', ret, rd)
         \<and> (\<forall>p\<in>set rd. AIO_EVENTS_OFFSET 4096 \<le> p
                \<and> p - AIO_EVENTS_OFFSET 4096 < unat (nr_events ctx_small))
         \<and> (ret = - EFAULT \<or> 0 \<le> ret \<and> ret \<le> max 0 200 \<and> int (length rd) = ret))
   \<and> (0 = ring_tail ctx_small
        \<and> (\<exists>ctx'. aio_read_events_ring 4096 (ctx_small\<lparr>ring_head := 0\<rparr>) (\<lambda>_ _. False) 200
              = Some (ctx', 0, [])))
   \<and> (\<exists>ctx' k. refill_reqs_available ctx_small 0 0xFFFFFFFF 0 = Some ctx'
         \<and> k \<le> completed_events ctx_small
         \<and> completed_events ctx' = completed_events ctx_small - k
         \<and> slots_available ctx' = slots_available ctx_small + k)"
proof -
  have h: "(32::nat) \<le> 4096" "0 < nr_events ctx_small" "0 < req_batch ctx_small"
    "unat (req_batch ctx_small) < 2 ^ 31" "0 < length (cpu ctx_small)"
    by (simp_all add: ctx_small_facts)
  have z: "0 = ring_tail ctx_small" by (simp add: ctx_small_facts)
  note a = ring_head_untrusted[OF h, where h="0xFFFFFFFF" and cf="\<lambda>_ _. False" and nr=200
             and t=0]
  note b = ring_head_untrusted[OF h, where h=0 and cf="\<lambda>_ _. False" and nr=200 and t=0]
  from b obtain ctx' ret rd where
    r: "aio_read_events_ring 4096 (ctx_small\<lparr>ring_head := 0\<rparr>) (\<lambda>_ _. False) 200
          = Some (ctx', ret, rd)"
    and i: "0 = ring_tail ctx_small \<longrightarrow> ret = 0 \<and> rd = []"
    by blast
  from i z have "ret = 0" "rd = []" by simp_all
  with r have "\<exists>ctx'. aio_read_events_ring 4096 (ctx_small\<lparr>ring_head := 0\<rparr>) (\<lambda>_ _. False) 200
              = Some (ctx', 0, [])" by blast
  with a z h show ?thesis by blast
qed

section \<open>Properties: cancellation\<close>

lemma calling_update:
  "i < length ts \<Longrightarrow>
     calling (ts[i := p]) =
       calling ts + (case p of At_call f \<Rightarrow> 1 | _ \<Rightarrow> 0) - (case ts ! i of At_call f \<Rightarrow> 1 | _ \<Rightarrow> 0)"
  by (simp add: calling_def map_update sum_list_update)

lemma calling_replicate: "calling (replicate n At_read) = 0"
  by (simp add: calling_def)

lemma calling_pos: "i < length ts \<Longrightarrow> ts ! i = At_call f \<Longrightarrow> 0 < calling ts"
proof -
  assume a: "i < length ts" "ts ! i = At_call f"
  then have "At_call f \<in> set ts" using nth_mem by fastforce
  then have "(\<lambda>p. case p of At_call f \<Rightarrow> 1 | _ \<Rightarrow> 0) (At_call f)
               \<in> set (map (\<lambda>p. case p of At_call f \<Rightarrow> (1::nat) | _ \<Rightarrow> 0) ts)"
    by (rule imageI[of _ "set ts", folded set_map])
  then have "(1::nat) \<in> set (map (\<lambda>p. case p of At_call f \<Rightarrow> 1 | _ \<Rightarrow> 0) ts)"
    by simp
  from member_le_sum_list[OF this] show ?thesis unfolding calling_def by simp
qed

lemma cancel_step_inv:
  assumes "cancel_step run s s'" and "cancel_inv s"
  shows "cancel_inv s'"
  using assms
proof (induction rule: cancel_step.induct)
  case (read i ts m calls w)
  then show ?case by (simp add: cancel_inv_def calling_update)
next
  case (reject i ts c m calls w)
  then show ?case by (auto simp: cancel_inv_def calling_update)
next
  case (swap i ts f m m' r calls w)
  show ?case
  proof (cases "m = CancelFn f")
    case True
    with swap have "m' = KIOCB_CANCELLED" "r = CancelFn f" "length calls + calling ts \<le> w"
      by (auto simp: atomic_cmpxchg_def cancel_inv_def)
    with swap show ?thesis by (simp add: cancel_inv_def calling_update)
  next
    case False
    with swap have "m' = m" "r \<noteq> CancelFn f" by (auto simp: atomic_cmpxchg_def)
    with swap show ?thesis by (simp add: cancel_inv_def calling_update)
  qed
next
  case (call i ts f m calls w)
  have p: "0 < calling ts" by (rule calling_pos[OF call(1,2)])
  have "calling (ts[i := Returned (run f)]) = calling ts - 1"
    using call(1,2) by (simp add: calling_update)
  with p have e: "length (calls @ [f]) + calling (ts[i := Returned (run f)])
                 = length calls + calling ts"
    by simp
  from call(3) show ?case unfolding cancel_inv_def prod.case e .
next
  case (store m calls ts w v)
  then show ?case by (auto simp: cancel_inv_def)
next
  case (requeue m early late m' r calls ts w)
  then show ?case by (auto simp: cancel_inv_def atomic_cmpxchg_def split: if_splits)
qed

lemma cancel_reach_inv: "cancel_reach run m0 n s \<Longrightarrow> cancel_inv s"
proof (induction rule: cancel_reach.induct)
  case init
  show ?case by (simp add: cancel_inv_def calling_replicate)
next
  case (step s s')
  then show ?case by (blast intro: cancel_step_inv)
qed

lemma kiocb_cancel_loop_result:
  "kiocb_cancel_loop c vs = (m, r) \<Longrightarrow>
     \<exists>pre\<in>set (c # vs).
       (case pre of CancelFn f \<Rightarrow> r = Some f \<and> m = KIOCB_CANCELLED | _ \<Rightarrow> r = None \<and> m = pre)"
proof (induction c vs rule: kiocb_cancel_loop.induct)
  case (1 vs)
  then show ?case by simp
next
  case (2 vs)
  then show ?case by simp
next
  case (3 f)
  then show ?case by (simp add: atomic_cmpxchg_def)
next
  case (4 f v vs)
  show ?case
  proof (cases "v = CancelFn f")
    case True
    with 4 show ?thesis by (simp add: atomic_cmpxchg_def)
  next
    case False
    with 4(2) have "kiocb_cancel_loop v vs = (m, r)" by (simp add: atomic_cmpxchg_def)
    with 4(1)[of "fst (atomic_cmpxchg v (CancelFn f) KIOCB_CANCELLED)" v] False
    have "\<exists>pre\<in>set (v # vs).
       (case pre of CancelFn f \<Rightarrow> r = Some f \<and> m = KIOCB_CANCELLED | _ \<Rightarrow> r = None \<and> m = pre)"
      by (simp add: atomic_cmpxchg_def)
    then show ?thesis by auto
  qed
qed

lemma kiocb_cancel_dead:
  "ki_cancel kiocb = CancelNull \<or> ki_cancel kiocb = KIOCB_CANCELLED \<Longrightarrow>
     kiocb_cancel run kiocb vs = (kiocb, - EINVAL, [])"
  by (auto simp: kiocb_cancel_def)

lemma kiocb_cancel_live:
  "ki_cancel kiocb = CancelFn f \<Longrightarrow>
     kiocb_cancel run kiocb [] = (kiocb\<lparr>ki_cancel := KIOCB_CANCELLED\<rparr>, run f, [f])"
  by (simp add: kiocb_cancel_def atomic_cmpxchg_def)

lemma kiocb_cancel_repeat_dead:
  "ki_cancel kiocb = CancelNull \<or> ki_cancel kiocb = KIOCB_CANCELLED \<Longrightarrow>
     kiocb_cancel_repeat run kiocb n = (kiocb, replicate n (- EINVAL), [])"
  by (induction n) (simp_all add: kiocb_cancel_dead)

lemma kiocb_cancel_repeat_calls:
  "kiocb_cancel_repeat run kiocb n = (kiocb', rets, calls) \<Longrightarrow> length calls \<le> 1"
proof (cases n)
  case 0
  then show "kiocb_cancel_repeat run kiocb n = (kiocb', rets, calls) \<Longrightarrow> length calls \<le> 1"
    by simp
next
  case (Suc k)
  assume r: "kiocb_cancel_repeat run kiocb n = (kiocb', rets, calls)"
  show "length calls \<le> 1"
  proof (cases "ki_cancel kiocb")
    case CancelNull
    with r show ?thesis by (simp add: kiocb_cancel_repeat_dead)
  next
    case KIOCB_CANCELLED
    with r show ?thesis by (simp add: kiocb_cancel_repeat_dead)
  next
    case (CancelFn f)
    have "ki_cancel (kiocb\<lparr>ki_cancel := KIOCB_CANCELLED\<rparr>) = CancelNull
          \<or> ki_cancel (kiocb\<lparr>ki_cancel := KIOCB_CANCELLED\<rparr>) = KIOCB_CANCELLED"
      by simp
    note d = kiocb_cancel_repeat_dead[OF this, of run k]
    from r show ?thesis
      unfolding Suc by (auto simp: kiocb_cancel_live[OF CancelFn] d)
  qed
qed

text \<open>
  C3, as the code has it. One call of \<open>kiocb_cancel\<close>: let \<open>pre\<close> be the value of
  \<open>ki_cancel\<close> the call last read (the content of the field itself when no other
  CPU interferes). If \<open>pre\<close> is \<open>NULL\<close> or \<open>KIOCB_CANCELLED\<close> the call returns
  \<open>-EINVAL\<close>, invokes nothing and leaves the field as it is; otherwise it has
  swapped the field to \<open>KIOCB_CANCELLED\<close>, invokes the function \<open>pre\<close> exactly once
  and returns what that function returns, whatever that is. So the call returns
  \<open>-EINVAL\<close> with nothing invoked exactly when \<open>pre\<close> is \<open>NULL\<close> or
  \<open>KIOCB_CANCELLED\<close>. Any number of calls one after the other invoke at most one
  cancel function. For any number of concurrent calls, in every interleaving of
  their atomic steps with stores by \<open>kiocb_set_cancel_fn\<close> and the \<open>cmpxchg\<close> of
  \<open>aio_thread_fn\<close>, the invocations done or due are at most one more than the
  stores that overwrote \<open>KIOCB_CANCELLED\<close>: at most one when no cancel function is
  stored into a request already cancelled.
\<close>

theorem kiocb_cancel_single_shot:
  assumes one: "kiocb_cancel run kiocb vs = (kiocb', ret, calls)"
    and many: "kiocb_cancel_repeat run kiocb n = (kiocb2, rets, calls2)"
    and conc: "cancel_reach run m0 k (m, calls3, ts, w)"
  shows "(\<exists>pre\<in>set (ki_cancel kiocb # vs).
            (vs = [] \<longrightarrow> pre = ki_cancel kiocb)
            \<and> (calls = [] \<longleftrightarrow> pre = CancelNull \<or> pre = KIOCB_CANCELLED)
            \<and> (ret = - EINVAL \<and> calls = [] \<longleftrightarrow> pre = CancelNull \<or> pre = KIOCB_CANCELLED)
            \<and> (pre = CancelNull \<or> pre = KIOCB_CANCELLED \<longrightarrow>
                  ret = - EINVAL \<and> calls = [] \<and> ki_cancel kiocb' = pre)
            \<and> (\<forall>f. pre = CancelFn f \<longrightarrow>
                  ret = run f \<and> calls = [f] \<and> ki_cancel kiocb' = KIOCB_CANCELLED))
       \<and> length calls2 \<le> 1
       \<and> length calls3 + calling ts \<le> Suc w
       \<and> (w = 0 \<longrightarrow> length calls3 + calling ts \<le> 1)
       \<and> (m \<noteq> KIOCB_CANCELLED \<longrightarrow> length calls3 + calling ts \<le> w)"
proof (intro conjI)
  obtain mm r where l: "kiocb_cancel_loop (ki_cancel kiocb) vs = (mm, r)"
    by (cases "kiocb_cancel_loop (ki_cancel kiocb) vs")
  from kiocb_cancel_loop_result[OF l] obtain pre where
    p: "pre \<in> set (ki_cancel kiocb # vs)"
       "case pre of CancelFn f \<Rightarrow> r = Some f \<and> mm = KIOCB_CANCELLED | _ \<Rightarrow> r = None \<and> mm = pre"
    by blast
  have "(vs = [] \<longrightarrow> pre = ki_cancel kiocb)
            \<and> (calls = [] \<longleftrightarrow> pre = CancelNull \<or> pre = KIOCB_CANCELLED)
            \<and> (ret = - EINVAL \<and> calls = [] \<longleftrightarrow> pre = CancelNull \<or> pre = KIOCB_CANCELLED)
            \<and> (pre = CancelNull \<or> pre = KIOCB_CANCELLED \<longrightarrow>
                  ret = - EINVAL \<and> calls = [] \<and> ki_cancel kiocb' = pre)
            \<and> (\<forall>f. pre = CancelFn f \<longrightarrow>
                  ret = run f \<and> calls = [f] \<and> ki_cancel kiocb' = KIOCB_CANCELLED)"
    using p one l by (auto simp: kiocb_cancel_def split: cancel_val.splits option.splits)
  with p(1) show "\<exists>pre\<in>set (ki_cancel kiocb # vs).
            (vs = [] \<longrightarrow> pre = ki_cancel kiocb)
            \<and> (calls = [] \<longleftrightarrow> pre = CancelNull \<or> pre = KIOCB_CANCELLED)
            \<and> (ret = - EINVAL \<and> calls = [] \<longleftrightarrow> pre = CancelNull \<or> pre = KIOCB_CANCELLED)
            \<and> (pre = CancelNull \<or> pre = KIOCB_CANCELLED \<longrightarrow>
                  ret = - EINVAL \<and> calls = [] \<and> ki_cancel kiocb' = pre)
            \<and> (\<forall>f. pre = CancelFn f \<longrightarrow>
                  ret = run f \<and> calls = [f] \<and> ki_cancel kiocb' = KIOCB_CANCELLED)"
    by blast
next
  show "length calls2 \<le> 1" by (rule kiocb_cancel_repeat_calls[OF many])
next
  from cancel_reach_inv[OF conc] show "length calls3 + calling ts \<le> Suc w"
    by (simp add: cancel_inv_def)
next
  from cancel_reach_inv[OF conc] show "w = 0 \<longrightarrow> length calls3 + calling ts \<le> 1"
    by (simp add: cancel_inv_def)
next
  from cancel_reach_inv[OF conc] show "m \<noteq> KIOCB_CANCELLED \<longrightarrow> length calls3 + calling ts \<le> w"
    by (simp add: cancel_inv_def)
qed

lemma cancel_reach_example:
  "cancel_reach (\<lambda>_. 0) (CancelFn 7) 2
     (KIOCB_CANCELLED, [7], [Returned 0, At_check (CancelFn 7)], 0)"
proof -
  let ?run = "\<lambda>_::nat. 0::int"
  have 0: "cancel_reach ?run (CancelFn 7) 2 (CancelFn 7, [], [At_read, At_read], 0)"
    using cancel_reach.init[of ?run "CancelFn 7" 2] by (simp add: numeral_2_eq_2)
  have 1: "cancel_reach ?run (CancelFn 7) 2
             (CancelFn 7, [], [At_check (CancelFn 7), At_read], 0)"
    using cancel_reach.step[OF 0 cancel_step.read[of 0]] by simp
  have 2: "cancel_reach ?run (CancelFn 7) 2
             (CancelFn 7, [], [At_check (CancelFn 7), At_check (CancelFn 7)], 0)"
    using cancel_reach.step[OF 1 cancel_step.read[of 1]] by simp
  have 3: "cancel_reach ?run (CancelFn 7) 2
             (KIOCB_CANCELLED, [], [At_call 7, At_check (CancelFn 7)], 0)"
    using cancel_reach.step[OF 2 cancel_step.swap[of 0 _ 7 "CancelFn 7" KIOCB_CANCELLED "CancelFn 7"]]
    by (simp add: atomic_cmpxchg_def)
  show ?thesis
    using cancel_reach.step[OF 3 cancel_step.call[of 0 _ 7]] by simp
qed

text \<open>
  A store after the cancellation arms the request again: the second caller of the
  example, started over after \<open>kiocb_set_cancel_fn\<close> has stored function 8 into the
  cancelled request, invokes it.
\<close>

lemma cancel_reach_store_again:
  "cancel_reach (\<lambda>_. 0) (CancelFn 7) 2
     (KIOCB_CANCELLED, [7, 8], [Returned 0, Returned 0], 1)"
proof -
  let ?run = "\<lambda>_::nat. 0::int"
  have 0: "cancel_reach ?run (CancelFn 7) 2 (CancelFn 7, [], [At_read, At_read], 0)"
    using cancel_reach.init[of ?run "CancelFn 7" 2] by (simp add: numeral_2_eq_2)
  have 1: "cancel_reach ?run (CancelFn 7) 2
             (CancelFn 7, [], [At_check (CancelFn 7), At_read], 0)"
    using cancel_reach.step[OF 0 cancel_step.read[of 0]] by simp
  have 2: "cancel_reach ?run (CancelFn 7) 2
             (KIOCB_CANCELLED, [], [At_call 7, At_read], 0)"
    using cancel_reach.step[OF 1 cancel_step.swap[of 0 _ 7 "CancelFn 7" KIOCB_CANCELLED "CancelFn 7"]]
    by (simp add: atomic_cmpxchg_def)
  have 3: "cancel_reach ?run (CancelFn 7) 2
             (KIOCB_CANCELLED, [7], [Returned 0, At_read], 0)"
    using cancel_reach.step[OF 2 cancel_step.call[of 0 _ 7]] by simp
  have 4: "cancel_reach ?run (CancelFn 7) 2
             (CancelFn 8, [7], [Returned 0, At_read], 1)"
    using cancel_reach.step[OF 3 cancel_step.store[of ?run KIOCB_CANCELLED _ _ 0 "CancelFn 8"]]
    by simp
  have 5: "cancel_reach ?run (CancelFn 7) 2
             (CancelFn 8, [7], [Returned 0, At_check (CancelFn 8)], 1)"
    using cancel_reach.step[OF 4 cancel_step.read[of 1]] by simp
  have 6: "cancel_reach ?run (CancelFn 7) 2
             (KIOCB_CANCELLED, [7], [Returned 0, At_call 8], 1)"
    using cancel_reach.step[OF 5 cancel_step.swap[of 1 _ 8 "CancelFn 8" KIOCB_CANCELLED "CancelFn 8"]]
    by (simp add: atomic_cmpxchg_def)
  show ?thesis
    using cancel_reach.step[OF 6 cancel_step.call[of 1 _ 8]] by simp
qed

text \<open>
  The theorem at \<open>kiocb_live\<close>: one call, three calls in a row, and two concurrent
  callers of which the first has won and returned.
\<close>

theorem kiocb_cancel_single_shot_witness:
  "kiocb_cancel (\<lambda>_. 0) kiocb_live [] = (kiocb_live\<lparr>ki_cancel := KIOCB_CANCELLED\<rparr>, 0, [7])
   \<and> kiocb_cancel_repeat (\<lambda>_. 0) kiocb_live 3
       = (kiocb_live\<lparr>ki_cancel := KIOCB_CANCELLED\<rparr>, [0, - EINVAL, - EINVAL], [7])
   \<and> cancel_reach (\<lambda>_. 0) (CancelFn 7) 2
       (KIOCB_CANCELLED, [7], [Returned 0, At_check (CancelFn 7)], 0)
   \<and> length [7::nat] + calling [Returned 0, At_check (CancelFn 7)] \<le> 1"
proof -
  have l: "ki_cancel kiocb_live = CancelFn 7" by (simp add: kiocb_live_def)
  have d: "ki_cancel (kiocb_live\<lparr>ki_cancel := KIOCB_CANCELLED\<rparr>) = CancelNull
          \<or> ki_cancel (kiocb_live\<lparr>ki_cancel := KIOCB_CANCELLED\<rparr>) = KIOCB_CANCELLED"
    by simp
  have 1: "kiocb_cancel (\<lambda>_. 0) kiocb_live []
             = (kiocb_live\<lparr>ki_cancel := KIOCB_CANCELLED\<rparr>, 0, [7])"
    by (simp add: kiocb_cancel_live[OF l])
  have 2: "kiocb_cancel_repeat (\<lambda>_. 0) kiocb_live 3
       = (kiocb_live\<lparr>ki_cancel := KIOCB_CANCELLED\<rparr>, [0, - EINVAL, - EINVAL], [7])"
    by (simp add: numeral_3_eq_3 kiocb_cancel_live[OF l] kiocb_cancel_dead[OF d])
  from kiocb_cancel_single_shot[OF 1 2 cancel_reach_example] 1 2 cancel_reach_example
  show ?thesis by blast
qed

text \<open>
  C3 as stated fails: \<open>kiocb_cancel\<close> also returns \<open>-EINVAL\<close> when the field held a
  cancel function and that function, invoked, returns \<open>-EINVAL\<close> itself.
\<close>

theorem kiocb_cancel_einval_from_cancel_fn:
  "kiocb_cancel run_einval kiocb_live []
     = (kiocb_live\<lparr>ki_cancel := KIOCB_CANCELLED\<rparr>, - EINVAL, [7])
   \<and> ki_cancel kiocb_live = CancelFn 7"
  by (simp add: kiocb_cancel_def atomic_cmpxchg_def kiocb_live_def run_einval_def)

section \<open>Properties: context teardown\<close>

lemma kill_ioctx_dead:
  "dead ctx \<noteq> 0 \<Longrightarrow>
     kill_ioctx table aio_nr ctx =
       ((table, aio_nr, ctx\<lparr>dead := 1\<rparr>), - EINVAL,
        [Lock_ioctx_lock, Xchg_dead (dead ctx), Unlock_ioctx_lock])"
  by (simp add: kill_ioctx_def atomic_xchg_def)

lemma kill_ioctx_alive:
  "dead ctx = 0 \<Longrightarrow>
     kill_ioctx table aio_nr ctx =
       ((table[unat (id ctx) := None], aio_nr_sub aio_nr (max_reqs ctx),
         ctx\<lparr>dead := 1, users := users ctx - 1\<rparr>), 0,
        [Lock_ioctx_lock, Xchg_dead 0, Table_clear (unat (id ctx)), Unlock_ioctx_lock,
         Wake_up_all, Aio_nr_sub (max_reqs ctx)]
        @ (if mmap_size ctx \<noteq> 0 then [Vm_munmap (mmap_base ctx) (mmap_size ctx)] else [])
        @ [Ref_kill_users])"
  by (simp add: kill_ioctx_def atomic_xchg_def)

lemma kill_ioctx_repeat_dead:
  "dead ctx \<noteq> 0 \<Longrightarrow> kill_ioctx_repeat table aio_nr ctx n = (s, rets, es) \<Longrightarrow>
     rets = replicate n (- EINVAL) \<and> teardown_free es
     \<and> s = (table, aio_nr, if n = 0 then ctx else ctx\<lparr>dead := 1\<rparr>)"
proof (induction n arbitrary: ctx s rets es)
  case 0
  then show ?case by (simp add: teardown_free_def)
next
  case (Suc n)
  obtain s2 rets2 es2 where
    r: "kill_ioctx_repeat table aio_nr (ctx\<lparr>dead := 1\<rparr>) n = (s2, rets2, es2)"
    by (cases "kill_ioctx_repeat table aio_nr (ctx\<lparr>dead := 1\<rparr>) n")
  have "dead (ctx\<lparr>dead := 1\<rparr>) \<noteq> 0" by simp
  from Suc.IH[OF this r] have ih: "rets2 = replicate n (- EINVAL)" "teardown_free es2"
    "s2 = (table, aio_nr, if n = 0 then ctx\<lparr>dead := 1\<rparr> else ctx\<lparr>dead := 1, dead := 1\<rparr>)"
    by simp_all
  from Suc.prems(2) have
    "s = s2" "rets = - EINVAL # rets2"
    "es = [Lock_ioctx_lock, Xchg_dead (dead ctx), Unlock_ioctx_lock] @ es2"
    by (simp_all add: kill_ioctx_dead[OF Suc.prems(1)] r)
  with ih Suc.prems(1) show ?case by (auto simp: teardown_free_def)
qed

lemma teardown_free_count:
  "teardown_free es \<Longrightarrow>
     count_list es (Table_clear i) = 0 \<and> count_list es (Vm_munmap a b) = 0
     \<and> count_list es Ref_kill_users = 0 \<and> count_list es (Xchg_dead 0) = 0"
  by (auto simp: teardown_free_def count_list_0_iff)

text \<open>
  C9. \<open>kill_ioctx\<close> takes \<open>ioctx_lock\<close> and exchanges \<open>dead\<close> with 1 before
  anything else, and leaves \<open>dead = 1\<close>. If \<open>dead\<close> was set it returns
  \<open>-EINVAL\<close> and changes neither the table, \<open>aio_nr\<close> nor \<open>users\<close>. If it was
  clear it returns 0, clears the table entry, and does each of table removal and
  kill of \<open>users\<close> once, and the unmap once if \<open>mmap_size\<close> is not zero. Of
  \<open>n\<close> calls on one context exactly one returns 0 if the context was alive and
  \<open>n > 0\<close>, none otherwise; over all the calls the exchange finds 0 at most once and
  each teardown step runs at most once.
\<close>

theorem kill_ioctx_once:
  assumes one: "kill_ioctx table aio_nr ctx = ((table', aio_nr', ctx'), ret, es)"
    and many: "kill_ioctx_repeat table aio_nr ctx n = (s, rets, es_all)"
  shows "take 2 es = [Lock_ioctx_lock, Xchg_dead (dead ctx)] \<and> dead ctx' = 1
       \<and> (dead ctx \<noteq> 0 \<longrightarrow>
             ret = - EINVAL \<and> table' = table \<and> aio_nr' = aio_nr \<and> users ctx' = users ctx
             \<and> teardown_free es)
       \<and> (dead ctx = 0 \<longrightarrow>
             ret = 0 \<and> table' = table[unat (id ctx) := None] \<and> users ctx' = users ctx - 1
             \<and> count_list es (Table_clear (unat (id ctx))) = 1
             \<and> count_list es Ref_kill_users = 1
             \<and> count_list es (Vm_munmap (mmap_base ctx) (mmap_size ctx))
                 = (if mmap_size ctx \<noteq> 0 then 1 else 0))
       \<and> length (filter (\<lambda>r. r = 0) rets) = (if dead ctx = 0 \<and> 0 < n then 1 else 0)
       \<and> count_list es_all (Xchg_dead 0) \<le> 1
       \<and> count_list es_all (Table_clear (unat (id ctx))) \<le> 1
       \<and> count_list es_all Ref_kill_users \<le> 1
       \<and> count_list es_all (Vm_munmap (mmap_base ctx) (mmap_size ctx)) \<le> 1"
proof (cases "dead ctx = 0")
  case False
  note k = kill_ioctx_dead[OF False, of table aio_nr]
  from one have o: "table' = table" "aio_nr' = aio_nr" "ctx' = ctx\<lparr>dead := 1\<rparr>"
    "ret = - EINVAL" "es = [Lock_ioctx_lock, Xchg_dead (dead ctx), Unlock_ioctx_lock]"
    unfolding k by simp_all
  have tf: "teardown_free es" using False by (simp add: o teardown_free_def)
  from kill_ioctx_repeat_dead[OF False many]
  have m: "rets = replicate n (- EINVAL)" "teardown_free es_all" by simp_all
  have z: "filter (\<lambda>r. r = 0) rets = []" by (simp add: m(1) EINVAL_def)
  note c = teardown_free_count[OF m(2)]
  show ?thesis using False tf z c by (simp add: o)
next
  case True
  note k = kill_ioctx_alive[OF True, of table aio_nr]
  let ?es = "[Lock_ioctx_lock, Xchg_dead 0, Table_clear (unat (id ctx)), Unlock_ioctx_lock,
         Wake_up_all, Aio_nr_sub (max_reqs ctx)]
        @ (if mmap_size ctx \<noteq> 0 then [Vm_munmap (mmap_base ctx) (mmap_size ctx)] else [])
        @ [Ref_kill_users]"
  let ?c1 = "ctx\<lparr>dead := 1, users := users ctx - 1\<rparr>"
  from one have o: "table' = table[unat (id ctx) := None]" "ctx' = ?c1" "ret = 0" "es = ?es"
    unfolding k by simp_all
  have ce: "count_list ?es (Table_clear (unat (id ctx))) = 1"
    "count_list ?es Ref_kill_users = 1" "count_list ?es (Xchg_dead 0) = 1"
    "count_list ?es (Vm_munmap (mmap_base ctx) (mmap_size ctx))
       = (if mmap_size ctx \<noteq> 0 then 1 else 0)"
    by simp_all
  have first: "take 2 es = [Lock_ioctx_lock, Xchg_dead (dead ctx)] \<and> dead ctx' = 1
       \<and> ret = 0 \<and> table' = table[unat (id ctx) := None] \<and> users ctx' = users ctx - 1"
    using True by (simp add: o)
  have rest: "length (filter (\<lambda>r. r = 0) rets) = (if 0 < n then 1 else 0)
       \<and> count_list es_all (Xchg_dead 0) \<le> 1
       \<and> count_list es_all (Table_clear (unat (id ctx))) \<le> 1
       \<and> count_list es_all Ref_kill_users \<le> 1
       \<and> count_list es_all (Vm_munmap (mmap_base ctx) (mmap_size ctx)) \<le> 1"
  proof (cases n)
    case 0
    with many show ?thesis by simp
  next
    case (Suc j)
    obtain s2 rets2 es2 where
      r: "kill_ioctx_repeat (table[unat (id ctx) := None]) (aio_nr_sub aio_nr (max_reqs ctx)) ?c1 j
            = (s2, rets2, es2)"
      by (cases "kill_ioctx_repeat (table[unat (id ctx) := None])
                   (aio_nr_sub aio_nr (max_reqs ctx)) ?c1 j")
    have "dead ?c1 \<noteq> 0" by simp
    from kill_ioctx_repeat_dead[OF this r]
    have m: "rets2 = replicate j (- EINVAL)" "teardown_free es2" by simp_all
    from many have a: "rets = 0 # rets2" "es_all = ?es @ es2"
      unfolding Suc by (simp_all add: k r)
    have z: "filter (\<lambda>r. r = 0) rets2 = []" by (simp add: m(1) EINVAL_def)
    note c = teardown_free_count[OF m(2)]
    show ?thesis
      unfolding a count_list_append ce using z c Suc by simp
  qed
  show ?thesis using True first rest ce unfolding o(4) by simp
qed

text \<open>The theorem at \<open>ctx_small\<close>, registered in slot 0 of a table of one entry.\<close>

theorem kill_ioctx_once_witness:
  "kill_ioctx [Some 1] 8 ctx_small
     = (([None], 0, ctx_small\<lparr>dead := 1, users := 0\<rparr>), 0,
        [Lock_ioctx_lock, Xchg_dead 0, Table_clear 0, Unlock_ioctx_lock, Wake_up_all,
         Aio_nr_sub 8, Vm_munmap 0x7f0000000000 4096, Ref_kill_users])
   \<and> (\<exists>s rets es_all. kill_ioctx_repeat [Some 1] 8 ctx_small 3 = (s, rets, es_all)
         \<and> length (filter (\<lambda>r. r = 0) rets) = 1
         \<and> count_list es_all Ref_kill_users \<le> 1)"
proof -
  have f: "dead ctx_small = 0" "id ctx_small = 0" "max_reqs ctx_small = 8"
    "mmap_size ctx_small = 4096" "mmap_base ctx_small = 0x7f0000000000" "users ctx_small = 1"
    by (simp_all add: ctx_small_def)
  have 1: "kill_ioctx [Some 1] 8 ctx_small
     = (([None], 0, ctx_small\<lparr>dead := 1, users := 0\<rparr>), 0,
        [Lock_ioctx_lock, Xchg_dead 0, Table_clear 0, Unlock_ioctx_lock, Wake_up_all,
         Aio_nr_sub 8, Vm_munmap 0x7f0000000000 4096, Ref_kill_users])"
    unfolding kill_ioctx_alive[OF f(1)] by (simp add: f aio_nr_sub_def)
  obtain s rets es_all where 2: "kill_ioctx_repeat [Some 1] 8 ctx_small 3 = (s, rets, es_all)"
    by (cases "kill_ioctx_repeat [Some 1] 8 ctx_small 3")
  from kill_ioctx_once[OF 1 2]
  have "length (filter (\<lambda>r. r = 0) rets) = 1" "count_list es_all Ref_kill_users \<le> 1"
    by (simp_all add: f)
  with 1 2 show ?thesis by blast
qed

section \<open>Properties: context creation\<close>

lemma ioctx_alloc_small:
  "ioctx_alloc conf_small no_failure 0x7f0000000000 0 0 1 = (8, Inr (ctx_small\<lparr>users := 2\<rparr>))"
  by (simp add: ioctx_alloc_def conf_small_def aio_setup_ring_def Let_def sizeof_io_event_def
      sizeof_aio_ring_def zeroed_kioctx_def ctx_small_def no_failure_def)

lemma aio_setup_ring_Inr:
  assumes "aio_setup_ring conf fails base ctx = Inr ctx'"
  shows "ctx' = ctx\<lparr>nr_pages := nr_pages ctx', mmap_size := mmap_size ctx',
                    mmap_base := base, user_id := base,
                    nr_events := nr_events ctx', ring_nr := nr_events ctx',
                    ring_id := - 1, ring_head := 0, ring_tail := 0\<rparr>"
    and "nr_pages ctx' = sint (word_of_nat
           ((sizeof_aio_ring + sizeof_io_event * unat (max_reqs ctx + 2) + PAGE_SIZE conf - 1)
              div PAGE_SIZE conf) :: u32)"
    and "0 \<le> nr_pages ctx'"
    and "nr_events ctx' = word_of_nat
           ((PAGE_SIZE conf * nat (nr_pages ctx') - sizeof_aio_ring) div sizeof_io_event)"
  using assms
  by (auto simp: aio_setup_ring_def Let_def split: if_splits)

lemma ceil_div_bounds:
  fixes s p :: nat
  assumes "0 < p"
  shows "s \<le> p * ((s + p - 1) div p)" and "p * ((s + p - 1) div p) \<le> s + p - 1"
proof -
  have e: "s + p - 1 = p * ((s + p - 1) div p) + (s + p - 1) mod p" by simp
  have "(s + p - 1) mod p < p" using assms by simp
  with e show "s \<le> p * ((s + p - 1) div p)" by arith
  from e show "p * ((s + p - 1) div p) \<le> s + p - 1" by arith
qed

lemma ioctx_alloc_Inr:
  assumes "ioctx_alloc conf fails base new_id aio_nr requested = (aio_nr', Inr ctx)"
  defines "m \<equiv> max requested (num_possible_cpus conf * 4) * 2"
  shows "\<exists>ctx1. aio_setup_ring conf fails base
                  (zeroed_kioctx\<lparr>max_reqs := m, users := 1, reqs := 1,
                                 cpu := replicate (unat (num_possible_cpus conf)) 0\<rparr>) = Inr ctx1
           \<and> max_reqs ctx = m \<and> nr_events ctx = nr_events ctx1 \<and> nr_pages ctx = nr_pages ctx1
           \<and> reqs_available ctx = nr_events ctx1 - 1
           \<and> req_batch ctx =
               (if (nr_events ctx1 - 1) div (num_possible_cpus conf * 4) < 1 then 1
                else (nr_events ctx1 - 1) div (num_possible_cpus conf * 4))
           \<and> aio_nr' = aio_nr + ucast m"
    and "unat m \<le> 0x800000" and "m \<noteq> 0"
proof -
  from assms(1) have 1: "\<not> 0x10000000 div sizeof_io_event < unat m" "m \<noteq> 0"
    by (auto simp: ioctx_alloc_def Let_def m_def split: if_splits)
  then show "unat m \<le> 0x800000" "m \<noteq> 0" by (simp_all add: sizeof_io_event_def)
  let ?c0 = "zeroed_kioctx\<lparr>max_reqs := m, users := 1, reqs := 1,
                                 cpu := replicate (unat (num_possible_cpus conf)) 0\<rparr>"
  show "\<exists>ctx1. aio_setup_ring conf fails base ?c0 = Inr ctx1
           \<and> max_reqs ctx = m \<and> nr_events ctx = nr_events ctx1 \<and> nr_pages ctx = nr_pages ctx1
           \<and> reqs_available ctx = nr_events ctx1 - 1
           \<and> req_batch ctx =
               (if (nr_events ctx1 - 1) div (num_possible_cpus conf * 4) < 1 then 1
                else (nr_events ctx1 - 1) div (num_possible_cpus conf * 4))
           \<and> aio_nr' = aio_nr + ucast m"
  proof (cases "aio_setup_ring conf fails base ?c0")
    case (Inl e)
    with assms(1) show ?thesis
      by (simp add: ioctx_alloc_def Let_def m_def split: if_splits)
  next
    case (Inr ctx1)
    have mr: "max_reqs ctx1 = m"
      by (subst aio_setup_ring_Inr(1)[OF Inr]) simp
    from assms(1) Inr mr show ?thesis
      by (auto simp: ioctx_alloc_def Let_def m_def[symmetric] split: if_splits)
  qed
qed

text \<open>
  The doubling of the request is done in 32 bits before the request is checked
  against the limits: \<open>io_setup(0x80000003)\<close> gives a context with \<open>max_reqs = 6\<close>.
\<close>

lemma ioctx_alloc_request_wraps:
  "\<exists>ctx. ioctx_alloc conf_small no_failure 0x7f0000000000 0 0 0x80000003 = (6, Inr ctx)
     \<and> max_reqs ctx = 6 \<and> nr_events ctx = 127"
  by (simp add: ioctx_alloc_def conf_small_def aio_setup_ring_def Let_def sizeof_io_event_def
      sizeof_aio_ring_def zeroed_kioctx_def no_failure_def AIO_RING_PAGES_def)

text \<open>
  C6, as the code has it. When \<open>ioctx_alloc\<close> returns a context (with a page size
  between 32 bytes and \<open>2^30\<close>, at least one and fewer than \<open>2^29\<close> possible CPUs,
  and a request below \<open>2^31\<close>, so that doubling it does not wrap), \<open>max_reqs\<close> is
  \<open>max(requested, num_possible_cpus * 4) * 2\<close>; the ring has the pages needed for
  the header and \<open>max_reqs + 2\<close> events, and \<open>nr_events\<close> is the number of events
  that fit in those pages after the header, which is at least \<open>max_reqs + 2\<close>;
  \<open>req_batch\<close> is \<open>max(1, (nr_events - 1) / (num_possible_cpus * 4))\<close> and the
  global counter starts at \<open>nr_events - 1\<close>.
\<close>

theorem ioctx_alloc_capacity:
  assumes a: "ioctx_alloc conf fails base new_id aio_nr requested = (aio_nr', Inr ctx)"
    and ps: "32 \<le> PAGE_SIZE conf" "PAGE_SIZE conf \<le> 2 ^ 30"
    and rq: "unat requested < 2 ^ 31"
    and nc: "0 < num_possible_cpus conf" "unat (num_possible_cpus conf) < 2 ^ 29"
  shows "unat (max_reqs ctx) = max (unat requested) (unat (num_possible_cpus conf) * 4) * 2
       \<and> nr_pages ctx = int ((sizeof_aio_ring + sizeof_io_event * (unat (max_reqs ctx) + 2)
                                + PAGE_SIZE conf - 1) div PAGE_SIZE conf)
       \<and> unat (nr_events ctx) =
           (PAGE_SIZE conf * nat (nr_pages ctx) - sizeof_aio_ring) div sizeof_io_event
       \<and> unat (max_reqs ctx) + 2 \<le> unat (nr_events ctx)
       \<and> unat (req_batch ctx) =
           max 1 ((unat (nr_events ctx) - 1) div (unat (num_possible_cpus conf) * 4))
       \<and> reqs_available ctx = nr_events ctx - 1"
proof -
  define m where "m = max requested (num_possible_cpus conf * 4) * 2"
  let ?p = "PAGE_SIZE conf"
  let ?n = "num_possible_cpus conf"
  let ?c0 = "zeroed_kioctx\<lparr>max_reqs := m, users := 1, reqs := 1,
                                 cpu := replicate (unat (num_possible_cpus conf)) 0\<rparr>"
  from ioctx_alloc_Inr[OF a, folded m_def] obtain ctx1 where
    s: "aio_setup_ring conf fails base ?c0 = Inr ctx1"
    and f: "max_reqs ctx = m" "nr_events ctx = nr_events ctx1" "nr_pages ctx = nr_pages ctx1"
       "reqs_available ctx = nr_events ctx1 - 1"
       "req_batch ctx =
               (if (nr_events ctx1 - 1) div (num_possible_cpus conf * 4) < 1 then 1
                else (nr_events ctx1 - 1) div (num_possible_cpus conf * 4))"
    and mb: "unat m \<le> 0x800000"
    by blast
  have n4: "unat (?n * 4) = unat ?n * 4"
    using nc(2) by (simp add: unat_word_ariths)
  have mx: "unat (max requested (?n * 4)) = max (unat requested) (unat ?n * 4)"
    unfolding n4[symmetric] by (simp add: max_def word_le_nat_alt)
  have "max (unat requested) (unat ?n * 4) < 2 ^ 31" using rq nc(2) by simp
  then have um: "unat m = max (unat requested) (unat ?n * 4) * 2"
    unfolding m_def by (simp add: unat_word_ariths mx)
  have m0: "max_reqs ?c0 = m" by simp
  have m2: "unat (m + 2) = unat m + 2" using mb by (simp add: unat_word_ariths)
  define size where "size = sizeof_aio_ring + sizeof_io_event * (unat m + 2)"
  define pages where "pages = (size + ?p - 1) div ?p"
  have p0: "0 < ?p" using ps by simp
  have sz: "size = 32 * (unat m + 3)" by (simp add: size_def sizeof_aio_ring_def sizeof_io_event_def)
  have szb: "size \<le> 32 * (0x800000 + 3)" using mb unfolding sz by simp
  note cb = ceil_div_bounds[OF p0, of size, folded pages_def]
  have "pages \<le> ?p * pages" using p0 by simp
  from this cb(2) have "pages \<le> size + ?p - 1" by (rule le_trans)
  with szb ps(2) have pb: "pages < 2 ^ 31" by simp
  have np: "nr_pages ctx1 = int pages"
  proof -
    have "nr_pages ctx1 = sint (word_of_nat pages :: u32)"
      unfolding aio_setup_ring_Inr(2)[OF s] m0 m2 pages_def size_def ..
    also have "\<dots> = int pages"
      using pb by (simp add: signed_of_nat signed_take_bit_int_eq_self)
    finally show ?thesis .
  qed
  have ne: "nr_events ctx1 = word_of_nat ((?p * pages - sizeof_aio_ring) div sizeof_io_event)"
    unfolding aio_setup_ring_Inr(4)[OF s] np by simp
  have "(?p * pages - sizeof_aio_ring) div sizeof_io_event \<le> ?p * pages"
    by (simp add: sizeof_io_event_def div_le_dividend le_trans[OF div_le_dividend])
  also have "\<dots> < 2 ^ 32" using cb(2) szb ps(2) by simp
  finally have nb: "(?p * pages - sizeof_aio_ring) div sizeof_io_event < 2 ^ 32" .
  have un: "unat (nr_events ctx1) = (?p * pages - sizeof_aio_ring) div sizeof_io_event"
    unfolding ne using nb by (simp add: unsigned_of_nat take_bit_nat_eq_self)
  have "unat m + 2 = (size - 32) div 32" unfolding sz by simp
  also have "\<dots> \<le> (?p * pages - 32) div 32" using cb(1) by (simp add: div_le_mono)
  finally have ge: "unat m + 2 \<le> unat (nr_events ctx1)"
    unfolding un by (simp add: sizeof_aio_ring_def sizeof_io_event_def)
  have "1 \<le> nr_events ctx1" using ge by (simp add: word_le_nat_alt)
  then have u1: "unat (nr_events ctx1 - 1) = unat (nr_events ctx1) - 1"
    by (simp add: unat_sub)
  have dv: "unat ((nr_events ctx1 - 1) div (?n * 4))
              = (unat (nr_events ctx1) - 1) div (unat ?n * 4)"
    unfolding unat_div u1 n4 ..
  have rb: "unat (req_batch ctx)
              = max 1 ((unat (nr_events ctx1) - 1) div (unat ?n * 4))"
  proof (cases "(nr_events ctx1 - 1) div (?n * 4) < 1")
    case True
    then have z: "(nr_events ctx1 - 1) div (?n * 4) = 0" by (simp only: word_less_1)
    from True f(5) have "req_batch ctx = 1" by simp
    moreover from dv have "(unat (nr_events ctx1) - 1) div (unat ?n * 4) = 0"
      unfolding z by simp
    ultimately show ?thesis by simp
  next
    case False
    then have "1 \<le> unat ((nr_events ctx1 - 1) div (?n * 4))"
      unfolding word_less_nat_alt by simp
    then have "1 \<le> (unat (nr_events ctx1) - 1) div (unat ?n * 4)" unfolding dv .
    moreover from False f(5) have "req_batch ctx = (nr_events ctx1 - 1) div (?n * 4)" by simp
    then have "unat (req_batch ctx) = (unat (nr_events ctx1) - 1) div (unat ?n * 4)"
      unfolding dv[symmetric] by simp
    ultimately show ?thesis by simp
  qed
  have c1: "unat (max_reqs ctx) = max (unat requested) (unat ?n * 4) * 2"
    unfolding f(1) by (rule um)
  have c2: "nr_pages ctx = int ((sizeof_aio_ring + sizeof_io_event * (unat (max_reqs ctx) + 2)
                                + ?p - 1) div ?p)"
    unfolding f(1,3) np pages_def size_def ..
  have c3: "unat (nr_events ctx) = (?p * nat (nr_pages ctx) - sizeof_aio_ring) div sizeof_io_event"
    unfolding f(2,3) np un by simp
  have c4: "unat (max_reqs ctx) + 2 \<le> unat (nr_events ctx)"
    unfolding f(1,2) by (rule ge)
  have c5: "unat (req_batch ctx) = max 1 ((unat (nr_events ctx) - 1) div (unat ?n * 4))"
    unfolding f(2) by (rule rb)
  have c6: "reqs_available ctx = nr_events ctx - 1"
    unfolding f(2) by (rule f(4))
  from c1 c2 c3 c4 c5 c6 show ?thesis by (intro conjI)
qed

text \<open>The theorem at \<open>io_setup(1)\<close> on \<open>conf_small\<close>.\<close>

theorem ioctx_alloc_capacity_witness:
  "ioctx_alloc conf_small no_failure 0x7f0000000000 0 0 1 = (8, Inr (ctx_small\<lparr>users := 2\<rparr>))
   \<and> 32 \<le> PAGE_SIZE conf_small \<and> PAGE_SIZE conf_small \<le> 2 ^ 30
   \<and> unat (1 :: u32) < 2 ^ 31
   \<and> 0 < num_possible_cpus conf_small \<and> unat (num_possible_cpus conf_small) < 2 ^ 29
   \<and> unat (max_reqs (ctx_small\<lparr>users := 2\<rparr>))
       = max (unat (1 :: u32)) (unat (num_possible_cpus conf_small) * 4) * 2
   \<and> unat (max_reqs (ctx_small\<lparr>users := 2\<rparr>)) + 2 \<le> unat (nr_events (ctx_small\<lparr>users := 2\<rparr>))
   \<and> unat (req_batch (ctx_small\<lparr>users := 2\<rparr>))
       = max 1 ((unat (nr_events (ctx_small\<lparr>users := 2\<rparr>)) - 1)
                  div (unat (num_possible_cpus conf_small) * 4))"
proof -
  have h: "32 \<le> PAGE_SIZE conf_small" "PAGE_SIZE conf_small \<le> 2 ^ 30"
    "unat (1 :: u32) < 2 ^ 31"
    "0 < num_possible_cpus conf_small" "unat (num_possible_cpus conf_small) < 2 ^ 29"
    by (simp_all add: conf_small_def)
  from ioctx_alloc_capacity[OF ioctx_alloc_small h] ioctx_alloc_small h
  show ?thesis by blast
qed

text \<open>
  C6 as stated fails: for one requested event on one CPU, \<open>max(1, 4) * 2 = 8\<close>, but
  the context has \<open>nr_events = 127\<close>, the events that fit in one page after the
  header.
\<close>

theorem ioctx_alloc_capacity_not_requested:
  "ioctx_alloc conf_small no_failure 0x7f0000000000 0 0 1 = (8, Inr (ctx_small\<lparr>users := 2\<rparr>))
   \<and> nr_events (ctx_small\<lparr>users := 2\<rparr>) \<noteq> max 1 (num_possible_cpus conf_small * 4) * 2"
proof -
  have "nr_events (ctx_small\<lparr>users := 2\<rparr>) \<noteq> max 1 (num_possible_cpus conf_small * 4) * 2"
    by (simp add: ctx_small_def conf_small_def)
  with ioctx_alloc_small show ?thesis by blast
qed

section \<open>Lemmas on submission\<close>

lemma get_reqs_available_seq:
  "get_reqs_available ctx c [] =
     (if cpu ctx ! c \<noteq> 0 then (ctx\<lparr>cpu := (cpu ctx)[c := cpu ctx ! c - 1]\<rparr>, True)
      else if reqs_available ctx < req_batch ctx then (ctx, False)
      else (ctx\<lparr>reqs_available := reqs_available ctx - req_batch ctx,
                cpu := (cpu ctx)[c := req_batch ctx - 1]\<rparr>, True))"
  by (simp add: get_reqs_available_def atomic_cmpxchg_def)

lemma get_reqs_available_summary:
  assumes c: "c < length (cpu ctx)" and g: "get_reqs_available ctx c [] = (ctx1, ok)"
  shows "same_shape ctx ctx1" "completed_events ctx1 = completed_events ctx"
    "slots_available ctx1 = slots_available ctx - (if ok then 1 else 0)"
    "ok \<longleftrightarrow> cpu ctx ! c \<noteq> 0 \<or> req_batch ctx \<le> reqs_available ctx"
    "\<not> ok \<Longrightarrow> ctx1 = ctx" "reqs ctx1 = reqs ctx"
proof -
  consider (fast) "cpu ctx ! c \<noteq> 0"
    | (fail) "cpu ctx ! c = 0" "reqs_available ctx < req_batch ctx"
    | (slow) "cpu ctx ! c = 0" "\<not> reqs_available ctx < req_batch ctx"
    by blast
  then have "same_shape ctx ctx1 \<and> completed_events ctx1 = completed_events ctx
    \<and> slots_available ctx1 = slots_available ctx - (if ok then 1 else 0)
    \<and> (ok \<longleftrightarrow> cpu ctx ! c \<noteq> 0 \<or> req_batch ctx \<le> reqs_available ctx)
    \<and> (\<not> ok \<longrightarrow> ctx1 = ctx) \<and> reqs ctx1 = reqs ctx"
  proof cases
    case fast
    with g have e: "ctx1 = ctx\<lparr>cpu := (cpu ctx)[c := cpu ctx ! c - 1]\<rparr>" "ok"
      by (simp_all add: get_reqs_available_seq)
    show ?thesis using c fast
      by (simp add: e same_shape_def slots_available_def sum_list_update_word)
  next
    case fail
    with g have e: "ctx1 = ctx" "\<not> ok" by (simp_all add: get_reqs_available_seq)
    show ?thesis using fail by (simp add: e same_shape_def not_le)
  next
    case slow
    with g have e: "ctx1 = ctx\<lparr>reqs_available := reqs_available ctx - req_batch ctx,
                cpu := (cpu ctx)[c := req_batch ctx - 1]\<rparr>" "ok"
      by (simp_all add: get_reqs_available_seq)
    show ?thesis using c slow
      by (simp add: e same_shape_def slots_available_def sum_list_update_word not_less)
  qed
  then show "same_shape ctx ctx1" "completed_events ctx1 = completed_events ctx"
    "slots_available ctx1 = slots_available ctx - (if ok then 1 else 0)"
    "ok \<longleftrightarrow> cpu ctx ! c \<noteq> 0 \<or> req_batch ctx \<le> reqs_available ctx"
    "\<not> ok \<Longrightarrow> ctx1 = ctx" "reqs ctx1 = reqs ctx"
    by blast+
qed

lemma put_reqs_available_summary:
  assumes b: "0 < req_batch ctx" "unat (req_batch ctx) < 2 ^ 31" and c: "c < length (cpu ctx)"
  shows "\<exists>ctx1. put_reqs_available ctx c n = Some ctx1 \<and> same_shape ctx ctx1
           \<and> completed_events ctx1 = completed_events ctx
           \<and> slots_available ctx1 = slots_available ctx + n \<and> reqs ctx1 = reqs ctx"
proof -
  from put_reqs_available_slots[OF assms, of n] obtain ctx1 where
    r: "put_reqs_available ctx c n = Some ctx1"
       "slots_available ctx1 = slots_available ctx + n"
       "length (cpu ctx1) = length (cpu ctx)"
    by blast
  note f = put_reqs_available_frame[OF r(1)]
  have "req_batch ctx1 = req_batch ctx" "completed_events ctx1 = completed_events ctx"
    "reqs ctx1 = reqs ctx"
    by (subst f, simp)+
  with r show ?thesis by (simp add: same_shape_def)
qed

lemma user_refill_summary:
  assumes b: "0 < req_batch ctx" "unat (req_batch ctx) < 2 ^ 31" and c: "c < length (cpu ctx)"
  shows "\<exists>ctx1. user_refill_reqs_available ctx c = Some ctx1 \<and> same_shape ctx ctx1
           \<and> slots_total ctx1 = slots_total ctx \<and> reqs ctx1 = reqs ctx
           \<and> (completed_events ctx = 0 \<longrightarrow> ctx1 = ctx)"
proof (cases "completed_events ctx = 0")
  case True
  then show ?thesis by (simp add: user_refill_reqs_available_def same_shape_def)
next
  case False
  from refill_reqs_available_effect[OF assms, of "ring_head ctx" "tail ctx"] obtain ctx1 where
    r: "refill_reqs_available ctx c (ring_head ctx) (tail ctx) = Some ctx1"
    and f: "ctx1 = ctx\<lparr>completed_events :=
                 completed_events ctx - refill_count ctx (ring_head ctx) (tail ctx),
               cpu := cpu ctx1, reqs_available := reqs_available ctx1\<rparr>"
    and s: "slots_available ctx1
              = slots_available ctx + refill_count ctx (ring_head ctx) (tail ctx)"
    and l: "length (cpu ctx1) = length (cpu ctx)"
    by blast
  have g: "req_batch ctx1 = req_batch ctx" "reqs ctx1 = reqs ctx"
    "completed_events ctx1
       = completed_events ctx - refill_count ctx (ring_head ctx) (tail ctx)"
    by (subst f, simp)+
  from False r g s l show ?thesis
    by (simp add: user_refill_reqs_available_def same_shape_def slots_total_def)
qed

lemma ready_same_shape: "ready c ctx \<Longrightarrow> same_shape ctx ctx' \<Longrightarrow> ready c ctx'"
  by (simp add: ready_def same_shape_def)

lemma same_shape_trans: "same_shape a b \<Longrightarrow> same_shape b c \<Longrightarrow> same_shape a c"
  by (simp add: same_shape_def)

lemma same_shape_refl: "same_shape a a"
  by (simp add: same_shape_def)

lemma aio_get_req_alloc_summary:
  assumes r: "ready c ctx"
  shows "\<exists>ctx1 rq. aio_get_req_alloc ctx c ok = Some (ctx1, rq) \<and> same_shape ctx ctx1
           \<and> completed_events ctx1 = completed_events ctx
           \<and> (rq = None \<longleftrightarrow> \<not> ok)
           \<and> slots_available ctx1 = slots_available ctx + (if ok then 0 else 1)
           \<and> reqs ctx1 = reqs ctx + (if ok then 1 else 0)"
proof (cases ok)
  case True
  then show ?thesis
    by (simp add: aio_get_req_alloc_def same_shape_def slots_available_def)
next
  case False
  from r have b: "0 < req_batch ctx" "unat (req_batch ctx) < 2 ^ 31" "c < length (cpu ctx)"
    by (simp_all add: ready_def)
  from put_reqs_available_summary[OF b, of 1] obtain ctx1 where
    "put_reqs_available ctx c 1 = Some ctx1" "same_shape ctx ctx1"
    "completed_events ctx1 = completed_events ctx"
    "slots_available ctx1 = slots_available ctx + 1" "reqs ctx1 = reqs ctx"
    by blast
  with False show ?thesis by (simp add: aio_get_req_alloc_def)
qed

lemma aio_get_req_summary:
  assumes r: "ready c ctx"
  shows "\<exists>ctx1 rq. aio_get_req ctx c ok = Some (ctx1, rq) \<and> same_shape ctx ctx1
           \<and> slots_total ctx1 = slots_total ctx - (if rq = None then 0 else 1)
           \<and> reqs ctx1 = reqs ctx + (if rq = None then 0 else 1)
           \<and> (\<not> ok \<longrightarrow> rq = None)
           \<and> (cpu ctx ! c \<noteq> 0 \<or> req_batch ctx \<le> reqs_available ctx
                \<or> completed_events ctx = 0 \<longrightarrow> completed_events ctx1 = completed_events ctx)"
proof -
  from r have c: "c < length (cpu ctx)" by (simp add: ready_def)
  obtain ctx1 ok1 where g1: "get_reqs_available ctx c [] = (ctx1, ok1)"
    by (cases "get_reqs_available ctx c []")
  note s1 = get_reqs_available_summary[OF c g1]
  show ?thesis
  proof (cases ok1)
    case True
    from aio_get_req_alloc_summary[OF ready_same_shape[OF r s1(1)], of ok]
    obtain ctx2 rq where
      a: "aio_get_req_alloc ctx1 c ok = Some (ctx2, rq)" "same_shape ctx1 ctx2"
         "completed_events ctx2 = completed_events ctx1" "rq = None \<longleftrightarrow> \<not> ok"
         "slots_available ctx2 = slots_available ctx1 + (if ok then 0 else 1)"
         "reqs ctx2 = reqs ctx1 + (if ok then 1 else 0)"
      by blast
    have e: "aio_get_req ctx c ok = Some (ctx2, rq)"
      using g1 True a(1) by (simp add: aio_get_req_def)
    have t: "slots_total ctx2 = slots_total ctx - (if rq = None then 0 else 1)"
      using a(3,4,5) s1(2,3) True by (simp add: slots_total_def)
    from e same_shape_trans[OF s1(1) a(2)] t a(3,4,6) s1(2,6) show ?thesis by simp
  next
    case False
    with s1(5) have c1: "ctx1 = ctx" by simp
    from r have b: "0 < req_batch ctx" "unat (req_batch ctx) < 2 ^ 31" by (simp_all add: ready_def)
    from user_refill_summary[OF b c] obtain ctx2 where
      u: "user_refill_reqs_available ctx c = Some ctx2" "same_shape ctx ctx2"
         "slots_total ctx2 = slots_total ctx" "reqs ctx2 = reqs ctx"
         "completed_events ctx = 0 \<longrightarrow> ctx2 = ctx"
      by blast
    have r2: "ready c ctx2" by (rule ready_same_shape[OF r u(2)])
    then have c2: "c < length (cpu ctx2)" by (simp add: ready_def)
    obtain ctx3 ok3 where g3: "get_reqs_available ctx2 c [] = (ctx3, ok3)"
      by (cases "get_reqs_available ctx2 c []")
    note s3 = get_reqs_available_summary[OF c2 g3]
    have fl: "\<not> (cpu ctx ! c \<noteq> 0 \<or> req_batch ctx \<le> reqs_available ctx)"
      using s1(4) False by simp
    show ?thesis
    proof (cases ok3)
      case f3: False
      then have e: "aio_get_req ctx c ok = Some (ctx3, None)"
        using g1 False c1 u(1) g3 by (simp add: aio_get_req_def)
      from s3(5) f3 have c3: "ctx3 = ctx2" by simp
      from e c3 u fl show ?thesis by auto
    next
      case t3: True
      from aio_get_req_alloc_summary[OF ready_same_shape[OF r2 s3(1)], of ok]
      obtain ctx4 rq where
        a: "aio_get_req_alloc ctx3 c ok = Some (ctx4, rq)" "same_shape ctx3 ctx4"
           "completed_events ctx4 = completed_events ctx3" "rq = None \<longleftrightarrow> \<not> ok"
           "slots_available ctx4 = slots_available ctx3 + (if ok then 0 else 1)"
           "reqs ctx4 = reqs ctx3 + (if ok then 1 else 0)"
        by blast
      have e: "aio_get_req ctx c ok = Some (ctx4, rq)"
        using g1 False c1 u(1) g3 t3 a(1) by (simp add: aio_get_req_def)
      have "slots_total ctx4 = slots_total ctx2 - (if rq = None then 0 else 1)"
        using a(3,4,5) s3(2,3) t3 by (simp add: slots_total_def)
      then have t: "slots_total ctx4 = slots_total ctx - (if rq = None then 0 else 1)"
        using u(3) by simp
      have sh: "same_shape ctx ctx4"
        by (rule same_shape_trans[OF u(2) same_shape_trans[OF s3(1) a(2)]])
      have ce: "completed_events ctx = 0 \<longrightarrow> completed_events ctx4 = completed_events ctx"
        using u(5) a(3) s3(2) by auto
      from e sh t a(4,6) s3(6) u(4) ce fl show ?thesis by simp
    qed
  qed
qed

lemma out_put_req_summary:
  assumes r: "ready c ctx"
  shows "\<exists>ctx1. out_put_req ctx c ret = Some (ctx1, ret, None) \<and> same_shape ctx ctx1
           \<and> completed_events ctx1 = completed_events ctx
           \<and> slots_available ctx1 = slots_available ctx + 1
           \<and> reqs ctx1 = reqs ctx - 1"
proof -
  from r have b: "0 < req_batch ctx" "unat (req_batch ctx) < 2 ^ 31" "c < length (cpu ctx)"
    by (simp_all add: ready_def)
  from put_reqs_available_summary[OF b, of 1] obtain ctx1 where
    p: "put_reqs_available ctx c 1 = Some ctx1" "same_shape ctx ctx1"
    "completed_events ctx1 = completed_events ctx"
    "slots_available ctx1 = slots_available ctx + 1" "reqs ctx1 = reqs ctx"
    by blast
  then show ?thesis
    by (simp add: out_put_req_def same_shape_def slots_available_def)
qed

lemma aio_complete_summary:
  assumes r: "ready c ctx"
  shows "\<exists>ctx1 es. aio_complete ps ctx c w iocb rs rs2 = Some (ctx1, es) \<and> same_shape ctx ctx1
           \<and> slots_total ctx1 = slots_total ctx + 1 \<and> reqs ctx1 = reqs ctx - 1"
proof -
  let ?p = "published ps ctx iocb rs rs2"
  let ?t = "if nr_events ctx \<le> tail ctx + 1 then 0 else tail ctx + 1"
  have p: "completed_events ?p = completed_events ctx + 1" "cpu ?p = cpu ctx"
    "reqs_available ?p = reqs_available ctx" "req_batch ?p = req_batch ctx" "reqs ?p = reqs ctx"
    by (simp_all add: published_def)
  have sp: "slots_total ?p = slots_total ctx + 1"
    by (simp add: slots_total_def slots_available_def p)
  show ?thesis
  proof (cases "1 < completed_events ctx + 1")
    case False
    then have "aio_complete ps ctx c w iocb rs rs2
                 = Some (?p\<lparr>reqs := reqs ctx - 1\<rparr>, complete_effects ps ctx w iocb rs rs2)"
      by (simp add: aio_complete_eq)
    moreover have "same_shape ctx (?p\<lparr>reqs := reqs ctx - 1\<rparr>)"
      by (simp add: same_shape_def p)
    moreover have "slots_total (?p\<lparr>reqs := reqs ctx - 1\<rparr>) = slots_total ctx + 1"
      using sp by (simp add: slots_total_def slots_available_def)
    ultimately show ?thesis by simp
  next
    case True
    from r have bp: "0 < req_batch ?p" "unat (req_batch ?p) < 2 ^ 31" "c < length (cpu ?p)"
      by (simp_all add: p ready_def)
    from refill_reqs_available_effect[OF bp, of "ring_head ctx" ?t] obtain ctx5 where
      r5: "refill_reqs_available ?p c (ring_head ctx) ?t = Some ctx5"
      and f5: "ctx5 = ?p\<lparr>completed_events :=
                           completed_events ?p - refill_count ?p (ring_head ctx) ?t,
                         cpu := cpu ctx5, reqs_available := reqs_available ctx5\<rparr>"
      and s5: "slots_available ctx5 = slots_available ?p + refill_count ?p (ring_head ctx) ?t"
      and l5: "length (cpu ctx5) = length (cpu ?p)"
      by blast
    have g: "req_batch ctx5 = req_batch ?p" "reqs ctx5 = reqs ?p"
      "completed_events ctx5 = completed_events ?p - refill_count ?p (ring_head ctx) ?t"
      by (subst f5, simp)+
    let ?c' = "ctx5\<lparr>reqs := reqs ctx5 - 1\<rparr>"
    have e: "aio_complete ps ctx c w iocb rs rs2
               = Some (?c', complete_effects ps ctx w iocb rs rs2)"
      using True by (simp add: aio_complete_eq r5)
    have sh: "same_shape ctx ?c'" using g l5 by (simp add: same_shape_def p)
    have "slots_total ctx5 = slots_total ?p" using g(3) s5 by (simp add: slots_total_def)
    then have st: "slots_total ?c' = slots_total ctx + 1"
      using sp by (simp add: slots_total_def slots_available_def)
    from e sh st g(2) p(5) show ?thesis by simp
  qed
qed

lemma sint_high_u64:
  fixes p :: "64 word"
  assumes "- 4095 \<le> p"
  shows "- 4095 \<le> sint p \<and> sint p < 0"
proof -
  have "uint (- 4095 :: 64 word) = 2 ^ 64 - 4095" by simp
  with assms have lo: "2 ^ 64 - 4095 \<le> uint p" by (simp add: word_le_def)
  have hi: "uint p < 2 ^ 64" using uint_bounded[of p] by simp
  have "(uint p + 2 ^ 63) mod 2 ^ 64 = uint p + 2 ^ 63 - 2 ^ 64"
  proof -
    have "(uint p + 2 ^ 63) mod 2 ^ 64 = (uint p + 2 ^ 63 - 2 ^ 64) mod 2 ^ 64"
      by (rule minus_mod_self2[symmetric])
    also have "\<dots> = uint p + 2 ^ 63 - 2 ^ 64"
      using lo hi by (intro mod_pos_pos_trivial) simp_all
    finally show ?thesis .
  qed
  then have "sint p = uint p - 2 ^ 64"
    by (simp add: sint_uint signed_take_bit_eq_take_bit_shift take_bit_eq_mod)
  with lo hi show ?thesis by simp
qed

lemma IS_ERR_PTR_ERR: "IS_ERR p \<Longrightarrow> PTR_ERR p < 0"
  using sint_high_u64[of p] by (simp add: IS_ERR_def PTR_ERR_def MAX_ERRNO_def)

lemma out_put_req_returned:
  "ready c ctx \<Longrightarrow> \<exists>ctx1. out_put_req ctx c ret = Some (ctx1, ret, None) \<and> slot_returned ctx ctx1"
  using out_put_req_summary[of c ctx ret] by (simp add: slot_returned_def)

lemma submit_post_put:
  assumes "ready c ctx" "ret \<noteq> 0"
  shows "submit_post ctx (out_put_req ctx c ret)"
proof -
  from out_put_req_returned[OF assms(1), of ret] obtain ctx1 where
    "out_put_req ctx c ret = Some (ctx1, ret, None)" "slot_returned ctx ctx1"
    by blast
  with assms(2) show ?thesis by (simp add: submit_post_def slot_returned_def)
qed

lemma submit_post_complete:
  assumes "ready c ctx"
  shows "submit_post ctx (case aio_complete ps ctx c w rq0 rs 0 of
              None \<Rightarrow> None
            | Some (ctx, es) \<Rightarrow> Some (ctx, 0, None))"
proof -
  from aio_complete_summary[OF assms, of ps w rq0 rs 0] obtain ctx1 es where
    "aio_complete ps ctx c w rq0 rs 0 = Some (ctx1, es)" "same_shape ctx ctx1"
    "slots_total ctx1 = slots_total ctx + 1" "reqs ctx1 = reqs ctx - 1"
    by blast
  then show ?thesis by (simp add: submit_post_def)
qed

lemma submit_post_queued: "submit_post ctx (Some (ctx, 0, Some req))"
  by (simp add: submit_post_def same_shape_refl)

lemma io_submit_req_post:
  assumes r: "ready c ctx"
  shows "submit_post ctx (io_submit_req ps ctx c env user_iocb iocb flags req)"
proof -
  have e: "- EBADF \<noteq> 0" "- EFAULT \<noteq> 0" by (simp_all add: errno_defs)
  have pe: "IS_ERR (eventfd_ctx_fdget env) \<Longrightarrow> PTR_ERR (eventfd_ctx_fdget env) \<noteq> 0"
    using IS_ERR_PTR_ERR[of "eventfd_ctx_fdget env"] by simp
  have ev: "IS_ERR_VALUE (fn_ret env) \<Longrightarrow> fn_ret env \<noteq> 0"
    by (simp add: IS_ERR_VALUE_def)
  show ?thesis
    unfolding io_submit_req_def Let_def
    by (simp add: submit_post_put[OF r e(1)] submit_post_put[OF r e(2)] submit_post_put[OF r pe]
          submit_post_put[OF r ev] submit_post_complete[OF r] submit_post_queued)
qed

lemma io_submit_one_invalid:
  assumes "aio_reserved1 iocb \<noteq> 0 \<or> aio_reserved2 iocb \<noteq> 0 \<or> sint (aio_nbytes iocb) < 0
           \<or> length tbl \<le> unat (aio_lio_opcode iocb)
           \<or> fst (tbl ! unat (aio_lio_opcode iocb)) = None"
  shows "io_submit_one ps tbl ctx c env user_iocb iocb = Some (ctx, - EINVAL, None)"
  using assms
  by (cases "tbl ! unat (aio_lio_opcode iocb)") (auto simp: io_submit_one_def)

lemma io_submit_one_valid:
  assumes "\<not> (aio_reserved1 iocb \<noteq> 0 \<or> aio_reserved2 iocb \<noteq> 0 \<or> sint (aio_nbytes iocb) < 0
           \<or> length tbl \<le> unat (aio_lio_opcode iocb)
           \<or> fst (tbl ! unat (aio_lio_opcode iocb)) = None)"
  shows "io_submit_one ps tbl ctx c env user_iocb iocb =
           (case aio_get_req ctx c (alloc_ok env) of
                None \<Rightarrow> None
              | Some (ctx, None) \<Rightarrow> Some (ctx, - EAGAIN, None)
              | Some (ctx, Some req) \<Rightarrow>
                  io_submit_req ps ctx c env user_iocb iocb
                    (snd (tbl ! unat (aio_lio_opcode iocb))) req)"
  using assms
  by (cases "tbl ! unat (aio_lio_opcode iocb)")
     (auto simp: io_submit_one_def split: option.splits)

section \<open>Claims on submission\<close>

text \<open>
  C2, as the code has it. \<open>io_submit_one\<close> returns. When it returns a failure
  (a value other than 0), no request is left, the reference count \<open>reqs\<close> is as
  before, and the admission counter plus \<open>completed_events\<close> is as before: the
  failed submission keeps no slot. The admission counter itself is as before when
  \<open>aio_get_req\<close> did not have to recycle completions, that is when the local
  counter was not zero, or the global held a batch, or \<open>completed_events\<close> was
  zero; otherwise it has grown by what \<open>user_refill_reqs_available\<close> moved out
  of \<open>completed_events\<close>. A validation failure (reserved field, negative
  \<open>aio_nbytes\<close>, opcode out of range or without function) returns \<open>-EINVAL\<close>
  and leaves the context untouched.
\<close>

theorem io_submit_one_no_lost_slot:
  assumes b: "0 < req_batch ctx" "unat (req_batch ctx) < 2 ^ 31" and c: "c < length (cpu ctx)"
  shows "\<exists>ctx' ret rq. io_submit_one ps tbl ctx c env user_iocb iocb = Some (ctx', ret, rq)
     \<and> (ret \<noteq> 0 \<longrightarrow>
           rq = None \<and> reqs ctx' = reqs ctx
           \<and> completed_events ctx' + slots_available ctx'
               = completed_events ctx + slots_available ctx
           \<and> (cpu ctx ! c \<noteq> 0 \<or> req_batch ctx \<le> reqs_available ctx
                \<or> completed_events ctx = 0 \<longrightarrow>
                 slots_available ctx' = slots_available ctx))
     \<and> (aio_reserved1 iocb \<noteq> 0 \<or> aio_reserved2 iocb \<noteq> 0 \<or> sint (aio_nbytes iocb) < 0
           \<or> length tbl \<le> unat (aio_lio_opcode iocb)
           \<or> fst (tbl ! unat (aio_lio_opcode iocb)) = None \<longrightarrow>
           ctx' = ctx \<and> ret = - EINVAL)"
proof (cases "aio_reserved1 iocb \<noteq> 0 \<or> aio_reserved2 iocb \<noteq> 0 \<or> sint (aio_nbytes iocb) < 0
           \<or> length tbl \<le> unat (aio_lio_opcode iocb)
           \<or> fst (tbl ! unat (aio_lio_opcode iocb)) = None")
  case True
  from io_submit_one_invalid[OF True] show ?thesis by simp
next
  case False
  note v = io_submit_one_valid[OF False, of ps ctx c env user_iocb]
  have val: "\<And>x y. aio_reserved1 iocb \<noteq> 0 \<or> aio_reserved2 iocb \<noteq> 0
           \<or> sint (aio_nbytes iocb) < 0
           \<or> length tbl \<le> unat (aio_lio_opcode iocb)
           \<or> fst (tbl ! unat (aio_lio_opcode iocb)) = None \<longrightarrow>
           x = ctx \<and> y = - EINVAL"
    using False by blast
  from b c have r: "ready c ctx" by (simp add: ready_def)
  from aio_get_req_summary[OF r, of "alloc_ok env"] obtain ctx1 rq1 where
    g: "aio_get_req ctx c (alloc_ok env) = Some (ctx1, rq1)" "same_shape ctx ctx1"
       "slots_total ctx1 = slots_total ctx - (if rq1 = None then 0 else 1)"
       "reqs ctx1 = reqs ctx + (if rq1 = None then 0 else 1)"
       "cpu ctx ! c \<noteq> 0 \<or> req_batch ctx \<le> reqs_available ctx
          \<or> completed_events ctx = 0 \<longrightarrow> completed_events ctx1 = completed_events ctx"
    by blast
  show ?thesis
  proof (cases rq1)
    case None
    with v g(1) have e: "io_submit_one ps tbl ctx c env user_iocb iocb
                           = Some (ctx1, - EAGAIN, None)" by simp
    from g(3,4,5) None have
      "reqs ctx1 = reqs ctx"
      "completed_events ctx1 + slots_available ctx1
         = completed_events ctx + slots_available ctx"
      "cpu ctx ! c \<noteq> 0 \<or> req_batch ctx \<le> reqs_available ctx
          \<or> completed_events ctx = 0 \<longrightarrow> slots_available ctx1 = slots_available ctx"
      by (auto simp: slots_total_def)
    with e val show ?thesis by blast
  next
    case (Some req)
    let ?res = "io_submit_req ps ctx1 c env user_iocb iocb
                  (snd (tbl ! unat (aio_lio_opcode iocb))) req"
    from v g(1) Some have e: "io_submit_one ps tbl ctx c env user_iocb iocb = ?res" by simp
    from io_submit_req_post[OF ready_same_shape[OF r g(2)]]
    have p: "submit_post ctx1 ?res" .
    then obtain ctx' ret rq where res: "?res = Some (ctx', ret, rq)"
      by (cases ?res) (auto simp: submit_post_def)
    from p res have f: "ret \<noteq> 0 \<longrightarrow> rq = None \<and> slot_returned ctx1 ctx'"
      by (simp add: submit_post_def)
    have "ret \<noteq> 0 \<longrightarrow>
           rq = None \<and> reqs ctx' = reqs ctx
           \<and> completed_events ctx' + slots_available ctx'
               = completed_events ctx + slots_available ctx
           \<and> (cpu ctx ! c \<noteq> 0 \<or> req_batch ctx \<le> reqs_available ctx
                \<or> completed_events ctx = 0 \<longrightarrow>
                 slots_available ctx' = slots_available ctx)"
    proof
      assume "ret \<noteq> 0"
      with f have n: "rq = None" and sr: "completed_events ctx' = completed_events ctx1"
        "slots_available ctx' = slots_available ctx1 + 1" "reqs ctx' = reqs ctx1 - 1"
        by (simp_all add: slot_returned_def)
      from g(3) Some have t: "completed_events ctx1 + slots_available ctx1
          = completed_events ctx + slots_available ctx - 1"
        by (simp add: slots_total_def)
      have 1: "completed_events ctx' + slots_available ctx'
               = completed_events ctx + slots_available ctx"
        unfolding sr add.assoc[symmetric] t by simp
      have 2: "cpu ctx ! c \<noteq> 0 \<or> req_batch ctx \<le> reqs_available ctx
                \<or> completed_events ctx = 0 \<longrightarrow>
                 slots_available ctx' = slots_available ctx"
      proof
        assume "cpu ctx ! c \<noteq> 0 \<or> req_batch ctx \<le> reqs_available ctx
                \<or> completed_events ctx = 0"
        with g(5) have "completed_events ctx1 = completed_events ctx" by blast
        with t have "slots_available ctx1 = slots_available ctx - 1" by simp
        then show "slots_available ctx' = slots_available ctx" unfolding sr by simp
      qed
      from n sr(3) g(4) Some 1 2
      show "rq = None \<and> reqs ctx' = reqs ctx
           \<and> completed_events ctx' + slots_available ctx'
               = completed_events ctx + slots_available ctx
           \<and> (cpu ctx ! c \<noteq> 0 \<or> req_batch ctx \<le> reqs_available ctx
                \<or> completed_events ctx = 0 \<longrightarrow>
                 slots_available ctx' = slots_available ctx)"
        by simp
    qed
    with e res val show ?thesis by (simp only:) blast
  qed
qed

lemma io_submit_one_drained:
  "io_submit_one 4096 tbl_pread ctx_drained 0 env_badfd 0x2000 iocb_pread
     = Some (ctx_drained\<lparr>completed_events := 0, cpu := [3]\<rparr>, - EBADF, None)"
  by (simp add: io_submit_one_def io_submit_req_def out_put_req_def aio_get_req_def
      aio_get_req_alloc_def get_reqs_available_seq user_refill_reqs_available_def
      refill_reqs_available_def put_reqs_available_def put_loop.simps Let_def
      ctx_drained_def ctx_small_def tbl_pread_def iocb_pread_def env_badfd_def NEED_FD_def
      word_le_nat_alt word_less_nat_alt)

lemma aio_get_req_exhausted:
  assumes "cpu ctx ! c = 0" "reqs_available ctx < req_batch ctx" "completed_events ctx = 0"
  shows "aio_get_req ctx c ok = Some (ctx, None)"
  using assms
  by (simp add: aio_get_req_def get_reqs_available_seq user_refill_reqs_available_def)

lemma aio_get_req_first_try:
  assumes "cpu ctx ! c \<noteq> 0 \<or> req_batch ctx \<le> reqs_available ctx"
  shows "aio_get_req ctx c ok = aio_get_req_alloc (fst (get_reqs_available ctx c [])) c ok"
    and "snd (get_reqs_available ctx c [])"
  using assms by (auto simp: aio_get_req_def get_reqs_available_seq not_less)

text \<open>
  C10. A valid descriptor, and \<open>kmem_cache_alloc\<close> fails. \<open>aio_get_req\<close> returns no
  request and \<open>io_submit_one\<close> returns \<open>-EAGAIN\<close>, which is not \<open>-ENOMEM\<close>;
  \<open>reqs\<close> and the admission counter plus \<open>completed_events\<close> are as before.
  When the first \<open>get_reqs_available\<close> succeeds, it takes one slot and
  \<open>put_reqs_available(ctx, 1)\<close> then gives it back, so that the admission counter
  is as before. An exhausted admission counter (nothing local, less than a batch
  global, nothing to recycle) gives the same \<open>-EAGAIN\<close> with the allocator
  working.
\<close>

theorem io_submit_one_alloc_failure:
  assumes b: "0 < req_batch ctx" "unat (req_batch ctx) < 2 ^ 31" and c: "c < length (cpu ctx)"
    and valid: "aio_reserved1 iocb = 0" "aio_reserved2 iocb = 0" "\<not> sint (aio_nbytes iocb) < 0"
      "unat (aio_lio_opcode iocb) < length tbl" "fst (tbl ! unat (aio_lio_opcode iocb)) \<noteq> None"
    and na: "\<not> alloc_ok env"
  shows "(\<exists>ctx1. aio_get_req ctx c (alloc_ok env) = Some (ctx1, None)
            \<and> io_submit_one ps tbl ctx c env user_iocb iocb = Some (ctx1, - EAGAIN, None)
            \<and> reqs ctx1 = reqs ctx
            \<and> completed_events ctx1 + slots_available ctx1
                = completed_events ctx + slots_available ctx
            \<and> (cpu ctx ! c \<noteq> 0 \<or> req_batch ctx \<le> reqs_available ctx \<longrightarrow>
                  (\<exists>ctx0. get_reqs_available ctx c [] = (ctx0, True)
                     \<and> slots_available ctx0 = slots_available ctx - 1
                     \<and> put_reqs_available ctx0 c 1 = Some ctx1
                     \<and> slots_available ctx1 = slots_available ctx)))
       \<and> - EAGAIN \<noteq> - ENOMEM
       \<and> (cpu ctx ! c = 0 \<and> reqs_available ctx < req_batch ctx \<and> completed_events ctx = 0 \<longrightarrow>
            io_submit_one ps tbl ctx c (env\<lparr>alloc_ok := True\<rparr>) user_iocb iocb
              = Some (ctx, - EAGAIN, None))"
proof (intro conjI)
  have v: "\<not> (aio_reserved1 iocb \<noteq> 0 \<or> aio_reserved2 iocb \<noteq> 0 \<or> sint (aio_nbytes iocb) < 0
           \<or> length tbl \<le> unat (aio_lio_opcode iocb)
           \<or> fst (tbl ! unat (aio_lio_opcode iocb)) = None)"
    using valid by simp
  from b c have r: "ready c ctx" by (simp add: ready_def)
  from aio_get_req_summary[OF r, of "alloc_ok env"] na obtain ctx1 where
    g: "aio_get_req ctx c (alloc_ok env) = Some (ctx1, None)"
       "slots_total ctx1 = slots_total ctx" "reqs ctx1 = reqs ctx"
       "cpu ctx ! c \<noteq> 0 \<or> req_batch ctx \<le> reqs_available ctx
          \<or> completed_events ctx = 0 \<longrightarrow> completed_events ctx1 = completed_events ctx"
    by auto
  have e: "io_submit_one ps tbl ctx c env user_iocb iocb = Some (ctx1, - EAGAIN, None)"
    unfolding io_submit_one_valid[OF v] g(1) by simp
  have t: "completed_events ctx1 + slots_available ctx1
                = completed_events ctx + slots_available ctx"
    using g(2) by (simp add: slots_total_def)
  have f: "cpu ctx ! c \<noteq> 0 \<or> req_batch ctx \<le> reqs_available ctx \<longrightarrow>
                  (\<exists>ctx0. get_reqs_available ctx c [] = (ctx0, True)
                     \<and> slots_available ctx0 = slots_available ctx - 1
                     \<and> put_reqs_available ctx0 c 1 = Some ctx1
                     \<and> slots_available ctx1 = slots_available ctx)"
  proof
    assume cond: "cpu ctx ! c \<noteq> 0 \<or> req_batch ctx \<le> reqs_available ctx"
    obtain ctx0 ok0 where g0: "get_reqs_available ctx c [] = (ctx0, ok0)"
      by (cases "get_reqs_available ctx c []")
    note s0 = get_reqs_available_summary[OF c g0]
    from aio_get_req_first_try(1)[OF cond, of "alloc_ok env"] aio_get_req_first_try(2)[OF cond] g0
    have a: "aio_get_req ctx c (alloc_ok env) = aio_get_req_alloc ctx0 c (alloc_ok env)"
      and ok0: "ok0" by simp_all
    from a g(1) na have p: "put_reqs_available ctx0 c 1 = Some ctx1"
      by (simp add: aio_get_req_alloc_def split: option.splits)
    from g(4) cond t have "slots_available ctx1 = slots_available ctx" by simp
    with g0 ok0 s0(3) p
    show "\<exists>ctx0. get_reqs_available ctx c [] = (ctx0, True)
                     \<and> slots_available ctx0 = slots_available ctx - 1
                     \<and> put_reqs_available ctx0 c 1 = Some ctx1
                     \<and> slots_available ctx1 = slots_available ctx"
      by simp
  qed
  from g(1) e g(3) t f
  show "\<exists>ctx1. aio_get_req ctx c (alloc_ok env) = Some (ctx1, None)
            \<and> io_submit_one ps tbl ctx c env user_iocb iocb = Some (ctx1, - EAGAIN, None)
            \<and> reqs ctx1 = reqs ctx
            \<and> completed_events ctx1 + slots_available ctx1
                = completed_events ctx + slots_available ctx
            \<and> (cpu ctx ! c \<noteq> 0 \<or> req_batch ctx \<le> reqs_available ctx \<longrightarrow>
                  (\<exists>ctx0. get_reqs_available ctx c [] = (ctx0, True)
                     \<and> slots_available ctx0 = slots_available ctx - 1
                     \<and> put_reqs_available ctx0 c 1 = Some ctx1
                     \<and> slots_available ctx1 = slots_available ctx))"
    by blast
  show "- EAGAIN \<noteq> - ENOMEM" by (simp add: errno_defs)
  show "cpu ctx ! c = 0 \<and> reqs_available ctx < req_batch ctx \<and> completed_events ctx = 0 \<longrightarrow>
            io_submit_one ps tbl ctx c (env\<lparr>alloc_ok := True\<rparr>) user_iocb iocb
              = Some (ctx, - EAGAIN, None)"
    unfolding io_submit_one_valid[OF v] by (simp add: aio_get_req_exhausted)
qed

text \<open>The theorem at \<open>ctx_small\<close>, whose global counter holds a batch.\<close>

theorem io_submit_one_alloc_failure_witness:
  "0 < req_batch ctx_small \<and> unat (req_batch ctx_small) < 2 ^ 31 \<and> 0 < length (cpu ctx_small)
   \<and> aio_reserved1 iocb_pread = 0 \<and> aio_reserved2 iocb_pread = 0
   \<and> \<not> sint (aio_nbytes iocb_pread) < 0 \<and> unat (aio_lio_opcode iocb_pread) < length tbl_pread
   \<and> fst (tbl_pread ! unat (aio_lio_opcode iocb_pread)) \<noteq> None \<and> \<not> alloc_ok env_nomem
   \<and> (\<exists>ctx1. io_submit_one 4096 tbl_pread ctx_small 0 env_nomem 0x2000 iocb_pread
                = Some (ctx1, - EAGAIN, None)
         \<and> slots_available ctx1 = slots_available ctx_small)"
proof -
  have h: "0 < req_batch ctx_small" "unat (req_batch ctx_small) < 2 ^ 31"
    "0 < length (cpu ctx_small)"
    "aio_reserved1 iocb_pread = 0" "aio_reserved2 iocb_pread = 0"
    "\<not> sint (aio_nbytes iocb_pread) < 0" "unat (aio_lio_opcode iocb_pread) < length tbl_pread"
    "fst (tbl_pread ! unat (aio_lio_opcode iocb_pread)) \<noteq> None" "\<not> alloc_ok env_nomem"
    by (simp_all add: ctx_small_facts iocb_pread_def tbl_pread_def env_nomem_def env_badfd_def)
  have cnd: "cpu ctx_small ! 0 \<noteq> 0 \<or> req_batch ctx_small \<le> reqs_available ctx_small"
    by (simp add: ctx_small_facts)
  from io_submit_one_alloc_failure[OF h, of 4096 "0x2000"] cnd
  have "\<exists>ctx1. io_submit_one 4096 tbl_pread ctx_small 0 env_nomem 0x2000 iocb_pread
                = Some (ctx1, - EAGAIN, None)
         \<and> slots_available ctx1 = slots_available ctx_small"
    by blast
  with h show ?thesis by blast
qed

text \<open>The theorem for C2 at \<open>ctx_drained\<close> with a descriptor whose file is not open.\<close>

theorem io_submit_one_no_lost_slot_witness:
  "0 < req_batch ctx_drained \<and> unat (req_batch ctx_drained) < 2 ^ 31
   \<and> 0 < length (cpu ctx_drained)
   \<and> (\<exists>ctx' ret rq. io_submit_one 4096 tbl_pread ctx_drained 0 env_badfd 0x2000 iocb_pread
                       = Some (ctx', ret, rq)
         \<and> ret = - EBADF \<and> ret \<noteq> 0
         \<and> completed_events ctx' + slots_available ctx'
             = completed_events ctx_drained + slots_available ctx_drained)"
proof -
  have h: "0 < req_batch ctx_drained" "unat (req_batch ctx_drained) < 2 ^ 31"
    "0 < length (cpu ctx_drained)"
    by (simp_all add: ctx_drained_def ctx_small_facts)
  from io_submit_one_no_lost_slot[OF h, of 4096 tbl_pread env_badfd "0x2000" iocb_pread]
  obtain ctx' ret rq where
    r: "io_submit_one 4096 tbl_pread ctx_drained 0 env_badfd 0x2000 iocb_pread
          = Some (ctx', ret, rq)"
    and k: "ret \<noteq> 0 \<longrightarrow> completed_events ctx' + slots_available ctx'
               = completed_events ctx_drained + slots_available ctx_drained"
    by blast
  from r have "ret = - EBADF" unfolding io_submit_one_drained by simp
  moreover from this have "ret \<noteq> 0" by (simp add: errno_defs)
  ultimately show ?thesis using h r k by blast
qed

text \<open>
  C2 as stated fails: on \<open>ctx_drained\<close> the submission fails with \<open>-EBADF\<close>
  after \<open>aio_get_req\<close> has recycled the three consumed completions, and the
  admission counter is 3 after the call and 0 before.
\<close>

theorem io_submit_one_refill_counterexample:
  "io_submit_one 4096 tbl_pread ctx_drained 0 env_badfd 0x2000 iocb_pread
     = Some (ctx_drained\<lparr>completed_events := 0, cpu := [3]\<rparr>, - EBADF, None)
   \<and> - EBADF \<noteq> 0
   \<and> slots_available (ctx_drained\<lparr>completed_events := 0, cpu := [3]\<rparr>)
       \<noteq> slots_available ctx_drained"
proof -
  have "slots_available (ctx_drained\<lparr>completed_events := 0, cpu := [3]\<rparr>)
          \<noteq> slots_available ctx_drained"
    by (simp add: slots_available_def ctx_drained_def ctx_small_facts)
  moreover have "- EBADF \<noteq> 0" by (simp add: errno_defs)
  ultimately show ?thesis using io_submit_one_drained by blast
qed

section \<open>Properties: batch submission\<close>
























end
